theory Spec2Isabelle
  imports Complex_Main "HOL-Library.AList" "HOL-Library.List_Lexorder" "HOL-Library.Char_ord"
    "HOL-Library.Multiset"
begin

section \<open>Identifier allocation\<close>

text \<open>
  The component keeps \<^verbatim>\<open>self._species_ids\<close>, a dict from clade name to the highest species
  number issued for the clade (\<^verbatim>\<open>None\<close> while no number was issued). A Python dict keeps
  insertion order, so it is an association list here; \<open>AList.update\<close> overwrites the value
  of a present key in place and appends an absent key, as item assignment does.
\<close>

type_synonym species_ids = "(string \<times> int option) list"

datatype error =
    KeyError
  | IndexError
  | ValueError
  | TypeError
  | AttributeError
  | AlreadyIntroduced
  | NotInAnyZone

definition ascii_uppercase :: string where
  "ascii_uppercase = ''ABCDEFGHIJKLMNOPQRSTUVWXYZ''"

text \<open>\<^verbatim>\<open>[''.join(s) for s in product(ascii_uppercase, repeat=size)]\<close>: the rightmost
  position advances fastest.\<close>

definition product_names :: "nat \<Rightarrow> string list" where
  "product_names sz = product_lists (replicate sz ascii_uppercase)"

text \<open>\<^verbatim>\<open>np.setdiff1d(ar1, ar2)\<close>: the sorted, unique values of \<open>ar1\<close> that are not in
  \<open>ar2\<close>.\<close>

definition setdiff1d :: "string list \<Rightarrow> string list \<Rightarrow> string list" where
  "setdiff1d ar1 ar2 = filter (\<lambda>x. x \<notin> set ar2) (sort (remdups ar1))"

text \<open>The longest used name bounds the number of rounds of the \<^verbatim>\<open>while\<close> loop.\<close>

definition longest :: "string list \<Rightarrow> nat" where
  "longest used = foldr (\<lambda>n m. max (length n) m) used 0"

text \<open>
  The loop of \<^verbatim>\<open>_get_unused_clade_name\<close>, on its variables \<open>size\<close> (here \<open>sz\<close>) and
  \<open>potential_name\<close>:
  \<^verbatim>\<open>
    while len(potential_name) == 0:
        a = product(ascii_uppercase, repeat=size)
        a = [''.join(s) for s in a]
        potential_name = np.setdiff1d(a, used_name)
        size += 1
  \<close>
  It ends because a round that finds no name of length \<open>size\<close> has \<open>size\<close> bounded by
  the longest used name.
\<close>

function clade_name_loop :: "string list \<Rightarrow> nat \<Rightarrow> string list \<Rightarrow> string list" where
  "clade_name_loop used_name sz potential_name =
     (if length potential_name = 0
      then clade_name_loop used_name (sz + 1) (setdiff1d (product_names sz) used_name)
      else potential_name)"
  by pat_completeness auto
termination
proof (relation "measure (\<lambda>(used, sz, p). if p = [] then Suc (Suc (longest used) - sz) else 0)")
  show "wf (measure (\<lambda>(used, sz, p). if p = [] then Suc (Suc (longest used) - sz) else 0))"
    by simp
next
  fix used_name :: "string list" and sz :: nat and potential_name :: "string list"
  assume "length potential_name = 0"
  have bound: "sz \<le> longest used_name" if e: "setdiff1d (product_names sz) used_name = []"
  proof -
    have "product_lists (replicate k ascii_uppercase) \<noteq> []" for k
    proof (induction k)
      case 0
      show ?case by simp
    next
      case (Suc k)
      then obtain n ns where "product_lists (replicate k ascii_uppercase) = n # ns"
        by (cases "product_lists (replicate k ascii_uppercase)") auto
      then show ?case
        by (simp add: ascii_uppercase_def)
    qed
    then obtain n where n: "n \<in> set (product_names sz)"
      unfolding product_names_def
      by (cases "product_lists (replicate sz ascii_uppercase)") auto
    have "set (setdiff1d (product_names sz) used_name) = set (product_names sz) - set used_name"
      by (auto simp: setdiff1d_def)
    with e n have "n \<in> set used_name" by auto
    then have "length n \<le> longest used_name"
      unfolding longest_def by (induction used_name) auto
    moreover have "length n = sz"
      using n unfolding product_names_def by (auto dest: in_set_product_lists_length)
    ultimately show ?thesis by simp
  qed
  from \<open>length potential_name = 0\<close>
  show "((used_name, sz + 1, setdiff1d (product_names sz) used_name),
         (used_name, sz, potential_name))
        \<in> measure (\<lambda>(used, sz, p). if p = [] then Suc (Suc (longest used) - sz) else 0)"
    using bound by auto
qed

text \<open>\<^verbatim>\<open>alphabet = list(ascii_uppercase)\<close>: the one-letter names.\<close>

definition alphabet :: "string list" where
  "alphabet = map (\<lambda>c. [c]) ascii_uppercase"

text \<open>
  \<^verbatim>\<open>_get_unused_clade_name\<close>. The loop leaves \<open>potential_name\<close> non-empty, so
  \<^verbatim>\<open>potential_name[0]\<close> is its head.
\<close>

definition get_unused_clade_name :: "species_ids \<Rightarrow> string \<times> species_ids" where
  "get_unused_clade_name species_ids =
     (let used_name = map fst species_ids;
          potential_name = setdiff1d alphabet used_name;
          potential_name = clade_name_loop used_name 1 potential_name;
          clade_name = hd potential_name
      in (clade_name, AList.update clade_name None species_ids))"

text \<open>
  \<^verbatim>\<open>_get_unused_species_id\<close>: reading \<^verbatim>\<open>self._species_ids[clade_name]\<close> of an absent
  clade raises \<^verbatim>\<open>KeyError\<close>, and the dict is then unchanged.
\<close>

definition get_unused_species_id ::
  "string \<Rightarrow> species_ids \<Rightarrow> error + ((string \<times> int) \<times> species_ids)" where
  "get_unused_species_id clade_name species_ids =
     (case map_of species_ids clade_name of
        None \<Rightarrow> Inl KeyError
      | Some None \<Rightarrow> Inr ((clade_name, 0), AList.update clade_name (Some 0) species_ids)
      | Some (Some n) \<Rightarrow>
          Inr ((clade_name, n + 1), AList.update clade_name (Some (n + 1)) species_ids))"

text \<open>
  A caller's use of one allocator: any sequence of the two operations. An operation that
  raises leaves the dict as it was, and the caller goes on.
\<close>

datatype alloc_op = AllocateClade | AllocateSpecies string

datatype alloc_out = CladeName string | SpeciesId "string \<times> int" | Raised error

fun apply_alloc :: "alloc_op \<Rightarrow> species_ids \<Rightarrow> alloc_out \<times> species_ids" where
  "apply_alloc AllocateClade ids =
     (case get_unused_clade_name ids of (c, ids') \<Rightarrow> (CladeName c, ids'))"
| "apply_alloc (AllocateSpecies c) ids =
     (case get_unused_species_id c ids of
        Inl e \<Rightarrow> (Raised e, ids)
      | Inr (sid, ids') \<Rightarrow> (SpeciesId sid, ids'))"

fun run_alloc :: "alloc_op list \<Rightarrow> species_ids \<Rightarrow> alloc_out list" where
  "run_alloc [] ids = []"
| "run_alloc (x # xs) ids =
     (case apply_alloc x ids of (out, ids') \<Rightarrow> out # run_alloc xs ids')"

fun issued_ids :: "alloc_out list \<Rightarrow> (string \<times> int) list" where
  "issued_ids [] = []"
| "issued_ids (SpeciesId sid # outs) = sid # issued_ids outs"
| "issued_ids (_ # outs) = issued_ids outs"

text \<open>\<open>n\<close> successive calls of \<^verbatim>\<open>_get_unused_clade_name\<close>, with the names they return.\<close>

fun allocate_clades :: "nat \<Rightarrow> species_ids \<Rightarrow> string list" where
  "allocate_clades 0 ids = []"
| "allocate_clades (Suc n) ids =
     (case get_unused_clade_name ids of (c, ids') \<Rightarrow> c # allocate_clades n ids')"

section \<open>Ledgers of zones and species\<close>

text \<open>
  \<^verbatim>\<open>self._zones\<close> and \<^verbatim>\<open>self._species\<close> are dicts of columns, one list per key, a row
  being the entries at one index. The species ledger has the columns of the zone ledger
  and two more, so it extends the record of the zone ledger, and the helpers the code
  shares between the two (\<^verbatim>\<open>_objects_at_time\<close>, \<^verbatim>\<open>_object_set_difference\<close>) take either.
  Zones and species are compared by identity: a value of \<open>'o\<close> is the identity of an
  object.
\<close>

record ('t, 'o) ledger =
  time_appeared :: "'t list"
  latest_time :: "'t list"
  object :: "'o list"

record ('t, 'o) species_ledger = "('t, 'o) ledger" +
  clade :: "string list"
  species_number :: "int list"

text \<open>The columns of a ledger have one length and no object has two rows.\<close>

definition ledger_ok :: "('t, 'o, 'more) ledger_scheme \<Rightarrow> bool" where
  "ledger_ok d \<longleftrightarrow>
     length (time_appeared d) = length (object d) \<and>
     length (latest_time d) = length (object d) \<and>
     distinct (object d)"

text \<open>
  \<^verbatim>\<open>_objects_at_time\<close>. The query time is \<open>None\<close> when it is \<^verbatim>\<open>np.nan\<close> (the prior time
  of a record with one tick), and every comparison with \<^verbatim>\<open>np.nan\<close> is false. The masks
  are element-wise, and the boolean index keeps the objects at the true positions. (NumPy
  refuses masks of unequal lengths; the columns of a ledger are extended together.)
\<close>

definition objects_at_time ::
  "'t::linorder option \<Rightarrow> ('t, 'o, 'more) ledger_scheme \<Rightarrow> 'o list" where
  "objects_at_time time dictionary =
     (let appeared = time_appeared dictionary;
          latest = latest_time dictionary;
          appeared_before_time =
            map (\<lambda>a. case time of None \<Rightarrow> False | Some t \<Rightarrow> a \<le> t) appeared;
          present_at_time =
            map (\<lambda>l. case time of None \<Rightarrow> False | Some t \<Rightarrow> l \<ge> t) latest;
          extant_at_time = map2 (\<and>) appeared_before_time present_at_time
      in map fst (filter snd (zip (object dictionary) extant_at_time)))"

text \<open>
  \<^verbatim>\<open>_object_set_difference\<close> turns the objects into sets and the two results back into
  lists. The order in which Python iterates a set of objects follows their hashes, which
  the code does not fix; \<open>set_order\<close> stands for it: it lists the distinct elements of
  its argument in some order.
\<close>

definition set_iteration :: "('o list \<Rightarrow> 'o list) \<Rightarrow> bool" where
  "set_iteration set_order \<longleftrightarrow> (\<forall>xs. distinct (set_order xs) \<and> set (set_order xs) = set xs)"

definition object_set_difference ::
  "('o list \<Rightarrow> 'o list) \<Rightarrow> 'o list \<Rightarrow> ('t, 'o, 'more) ledger_scheme \<Rightarrow> 'o list \<times> 'o list" where
  "object_set_difference set_order objects dataframe =
     (let df_objs = object dataframe;
          updated_objects = set_order (filter (\<lambda>x. x \<in> set df_objs) objects);
          new_objects = set_order (filter (\<lambda>x. x \<notin> set df_objs) objects)
      in (updated_objects, new_objects))"

text \<open>\<^verbatim>\<open>list.index\<close>: the first position of a value, \<open>None\<close> where Python raises
  \<^verbatim>\<open>ValueError\<close>.\<close>

fun index :: "'a list \<Rightarrow> 'a \<Rightarrow> nat option" where
  "index [] x = None"
| "index (y # ys) x = (if y = x then Some 0 else map_option Suc (index ys x))"

text \<open>
  The loop \<^verbatim>\<open>for z in z_updated: ...['latest_time'][...['object'].index(z)] = time\<close>.
  A raise leaves the assignments made so far in place.
\<close>

fun set_latest_time ::
  "'t \<Rightarrow> 'o list \<Rightarrow> ('t, 'o, 'more) ledger_scheme \<Rightarrow> ('t, 'o, 'more) ledger_scheme \<times> error option"
  where
  "set_latest_time time [] d = (d, None)"
| "set_latest_time time (z # zs) d =
     (case index (object d) z of
        None \<Rightarrow> (d, Some ValueError)
      | Some i \<Rightarrow>
          if i < length (latest_time d)
          then set_latest_time time zs (d\<lparr>latest_time := (latest_time d)[i := time]\<rparr>)
          else (d, Some IndexError))"

text \<open>\<^verbatim>\<open>_update_zone_data_structure\<close>, on the ledger it updates.\<close>

definition update_zone_data_structure ::
  "('o list \<Rightarrow> 'o list) \<Rightarrow> 't \<Rightarrow> 'o list \<Rightarrow> ('t, 'o) ledger \<Rightarrow> ('t, 'o) ledger \<times> error option"
  where
  "update_zone_data_structure set_order time zones_at_time zones =
     (case object_set_difference set_order zones_at_time zones of
        (z_updated, z_new) \<Rightarrow>
          (case set_latest_time time z_updated zones of
             (zones1, Some e) \<Rightarrow> (zones1, Some e)
           | (zones1, None) \<Rightarrow>
               if z_new \<noteq> []
               then (let t = replicate (length z_new) time
                     in (zones1\<lparr>time_appeared := time_appeared zones1 @ t,
                                latest_time := latest_time zones1 @ t,
                                object := object zones1 @ z_new\<rparr>, None))
               else (zones1, None)))"


section \<open>The record\<close>

text \<open>
  \<^verbatim>\<open>self._record\<close> is an ordered dict of columns whose first key is \<^verbatim>\<open>'time'\<close>. Times and
  contributed values are numbers; \<^verbatim>\<open>np.nan\<close> (here \<open>None\<close>) enters only as the padding of a
  new column. So the column \<^verbatim>\<open>'time'\<close> is kept apart as \<open>time_col\<close>, a list of numbers, and
  \<open>columns\<close> holds the other keys in insertion order. An \<^verbatim>\<open>add_on\<close> is a dict from column
  name to the value of the tick, listed in the order of \<^verbatim>\<open>add_on.items()\<close>.
\<close>

type_synonym cell = "real option"

type_synonym add_on = "(string \<times> real) list"

record temporal_record =
  time_col :: "real list"
  columns :: "(string \<times> cell list) list"

text \<open>
  \<^verbatim>\<open>_insert_record_add_on\<close>:
  \<^verbatim>\<open>
    for key, value in add_on.items():
        if key not in self._record.keys():
            self._record[key] = [np.nan] * (len(self._record['time']) - 1)
        self._record[key].append(value)
  \<close>
  A list times a negative number is empty, as the truncated subtraction gives.
\<close>

fun insert_record_add_on :: "add_on \<Rightarrow> temporal_record \<Rightarrow> temporal_record" where
  "insert_record_add_on [] r = r"
| "insert_record_add_on ((key, val) # add_on) r =
     (let r1 = (if key \<noteq> ''time'' \<and> key \<notin> set (map fst (columns r))
                then r\<lparr>columns := columns r @ [(key, replicate (length (time_col r) - 1) None)]\<rparr>
                else r)
      in insert_record_add_on add_on
           (if key = ''time''
            then r1\<lparr>time_col := time_col r1 @ [val]\<rparr>
            else r1\<lparr>columns := AList.map_entry key (\<lambda>col. col @ [Some val]) (columns r1)\<rparr>))"

text \<open>Every column has one entry per recorded time.\<close>

definition aligned :: "temporal_record \<Rightarrow> bool" where
  "aligned r \<longleftrightarrow> list_all (\<lambda>(key, col). length col = length (time_col r)) (columns r)"

text \<open>\<^verbatim>\<open>max(self._record['time'])\<close>; \<^verbatim>\<open>max\<close> of an empty list raises \<^verbatim>\<open>ValueError\<close>.\<close>

fun py_max :: "real list \<Rightarrow> error + real" where
  "py_max [] = Inl ValueError"
| "py_max (x # xs) = Inr (fold max xs x)"

text \<open>\<^verbatim>\<open>_get_prior_time\<close>: \<^verbatim>\<open>np.nan\<close> for a record of one tick, else
  \<^verbatim>\<open>sorted(self._record['time'])[-2]\<close>.\<close>

definition get_prior_time :: "temporal_record \<Rightarrow> real option" where
  "get_prior_time r =
     (if length (time_col r) < 2 then None
      else Some (sort (time_col r) ! (length (time_col r) - 2)))"

section \<open>Queries by identifier\<close>

text \<open>The values a caller can pass as \<^verbatim>\<open>identifier_element\<close>, by their Python type.\<close>

datatype pyval =
    PyTuple "pyval list"
  | PyStr string
  | PyInt int
  | PyBool bool
  | PyFloat real
  | PyNone

text \<open>\<^verbatim>\<open>isinstance(x, str)\<close>, and \<^verbatim>\<open>isinstance(x, int)\<close>, which holds of a \<^verbatim>\<open>bool\<close> too.\<close>

fun isinstance_str :: "pyval \<Rightarrow> bool" where
  "isinstance_str (PyStr s) = True"
| "isinstance_str _ = False"

fun isinstance_int :: "pyval \<Rightarrow> bool" where
  "isinstance_int (PyInt n) = True"
| "isinstance_int (PyBool b) = True"
| "isinstance_int _ = False"

text \<open>\<^verbatim>\<open>sdf.clade == clade\<close> and \<^verbatim>\<open>sdf.species_number == num\<close> on one row; \<^verbatim>\<open>True == 1\<close>.\<close>

fun eq_str :: "string \<Rightarrow> pyval \<Rightarrow> bool" where
  "eq_str c (PyStr s) = (c = s)"
| "eq_str c _ = False"

fun eq_int :: "int \<Rightarrow> pyval \<Rightarrow> bool" where
  "eq_int n (PyInt m) = (n = m)"
| "eq_int n (PyBool b) = (n = (if b then 1 else 0))"
| "eq_int n (PyFloat x) = (real_of_int n = x)"
| "eq_int n _ = False"

text \<open>A row of the species table: its index, clade, number, times and object.\<close>

type_synonym ('t, 's) species_row = "nat \<times> string \<times> int \<times> 't \<times> 't \<times> 's"

text \<open>\<^verbatim>\<open>DataFrame(self._species)\<close>, which pandas refuses for columns of unequal lengths.\<close>

definition data_frame :: "('t, 's) species_ledger \<Rightarrow> error + ('t, 's) species_row list" where
  "data_frame sp =
     (let n = length (object sp)
      in if length (clade sp) = n \<and> length (species_number sp) = n \<and>
            length (time_appeared sp) = n \<and> length (latest_time sp) = n
         then Inr (zip [0..<n] (zip (clade sp) (zip (species_number sp)
                 (zip (time_appeared sp) (zip (latest_time sp) (object sp))))))
         else Inl ValueError)"

text \<open>The end of \<^verbatim>\<open>species_with_identifier\<close>: \<^verbatim>\<open>None\<close> for no row, else the rows
  (as a table or as a dict of them, which hold the same rows).\<close>

definition rows_or_none :: "'r list \<Rightarrow> error + 'r list option" where
  "rows_or_none s_out = (if length s_out = 0 then Inr None else Inr (Some s_out))"

text \<open>
  \<^verbatim>\<open>species_with_identifier\<close>. In the tuple branch the two elements are read before the
  length and the types are checked, and reading past the end of a tuple raises
  \<^verbatim>\<open>IndexError\<close>.
\<close>

definition species_with_identifier ::
  "pyval \<Rightarrow> ('t, 's) species_ledger \<Rightarrow> error + ('t, 's) species_row list option" where
  "species_with_identifier identifier_element sp =
     (case data_frame sp of
        Inl e \<Rightarrow> Inl e
      | Inr sdf \<Rightarrow>
          (case identifier_element of
             PyTuple elems \<Rightarrow>
               (case elems of
                  [] \<Rightarrow> Inl IndexError
                | [c] \<Rightarrow> Inl IndexError
                | c # num # rest \<Rightarrow>
                    if \<not> (length elems = 2 \<and> isinstance_str c \<and> isinstance_int num)
                    then Inl TypeError
                    else rows_or_none
                           (filter (\<lambda>(i, cl, n, row). eq_str cl c \<and> eq_int n num) sdf))
           | PyStr s \<Rightarrow> rows_or_none (filter (\<lambda>(i, cl, row). cl = s) sdf)
           | PyInt k \<Rightarrow> rows_or_none (filter (\<lambda>(i, cl, n, row). n = k) sdf)
           | _ \<Rightarrow> Inl TypeError))"

section \<open>The component\<close>

text \<open>
  Modelled from the spec: the class \<^verbatim>\<open>Species\<close> is not among the sources. A species
  carries an identifier \<open>(clade, number)\<close> (\<^verbatim>\<open>_identifier\<close>, read as \<^verbatim>\<open>identifier\<close>; unset
  until the component assigns it), a back-reference to its parent species or none, the
  zones it occupies (\<^verbatim>\<open>_zones\<close>) and the flag \<^verbatim>\<open>extant\<close>; \<^verbatim>\<open>s.clade\<close> is the first
  component of the identifier. The attributes of the species objects live in a heap from
  the identity of a species to its attributes.
\<close>

record ('z, 's) species_obj =
  species_identifier :: "(string \<times> int) option"
  parent_species :: "'s option"
  szones :: "'z list"
  extant :: bool

type_synonym ('z, 's) heap = "'s \<Rightarrow> ('z, 's) species_obj"

text \<open>What the collaborators own: the species objects and whatever else they keep
  (the grid, the zone paths).\<close>

type_synonym ('z, 's, 'x) world = "('z, 's) heap \<times> 'x"

text \<open>
  Modelled from the spec: the zone managers, the zones and the evolution of the species
  are collaborators whose code is not among the sources; the component calls
  \<^verbatim>\<open>zm._create_zones()\<close>, \<^verbatim>\<open>zm._update_paths(time, prior, new, add_on)\<close>,
  \<^verbatim>\<open>es._evolve(time, dt, add_on)\<close> and reads \<^verbatim>\<open>z._manager\<close>. A call may change the
  collaborators' world and the \<^verbatim>\<open>add_on\<close> it is given. The two last fields are the orders
  in which Python iterates a set of zones and a set of species.
\<close>

record ('m, 'z, 's, 'x) collaborators =
  create_zones :: "'m \<Rightarrow> ('z, 's, 'x) world \<Rightarrow> 'z list \<times> ('z, 's, 'x) world"
  manager :: "'z \<Rightarrow> 'm"
  update_paths ::
    "'m \<Rightarrow> real \<Rightarrow> 'z list \<Rightarrow> 'z list \<Rightarrow> add_on \<Rightarrow> ('z, 's, 'x) world
      \<Rightarrow> 'z list \<times> add_on \<times> ('z, 's, 'x) world"
  evolve ::
    "'s \<Rightarrow> real \<Rightarrow> real \<Rightarrow> add_on \<Rightarrow> ('z, 's, 'x) world
      \<Rightarrow> 's list \<times> add_on \<times> ('z, 's, 'x) world"
  zone_set_order :: "'z list \<Rightarrow> 'z list"
  species_set_order :: "'s list \<Rightarrow> 's list"

text \<open>The attributes of a \<^verbatim>\<open>SpeciesEvolver\<close>, with the world of its collaborators.\<close>

record ('m, 'z, 's, 'x) evolver =
  rec :: temporal_record
  species :: "(real, 's) species_ledger"
  zones :: "(real, 'z) ledger"
  species_ids :: species_ids
  zone_managers :: "'m list"
  heap :: "('z, 's) heap"
  env :: 'x

text \<open>\<^verbatim>\<open>[s.identifier[0] for s in s_new]\<close> and \<^verbatim>\<open>[s.identifier[1] for s in s_new]\<close>: the
  identifiers of the new species, \<open>None\<close> when one is unset and the subscript raises.\<close>

fun identifiers :: "('z, 's) heap \<Rightarrow> 's list \<Rightarrow> (string \<times> int) list option" where
  "identifiers h [] = Some []"
| "identifiers h (s # ss) =
     (case species_identifier (h s) of
        None \<Rightarrow> None
      | Some sid \<Rightarrow> map_option ((#) sid) (identifiers h ss))"

text \<open>\<^verbatim>\<open>_update_species_data_structure\<close>, on the species ledger.\<close>

definition update_species_data_structure ::
  "('s list \<Rightarrow> 's list) \<Rightarrow> ('z, 's) heap \<Rightarrow> real \<Rightarrow> 's list \<Rightarrow> (real, 's) species_ledger
    \<Rightarrow> (real, 's) species_ledger \<times> error option" where
  "update_species_data_structure set_order h time species_at_time sp =
     (case object_set_difference set_order species_at_time sp of
        (s_updated, s_new) \<Rightarrow>
          (case set_latest_time time s_updated sp of
             (sp1, Some e) \<Rightarrow> (sp1, Some e)
           | (sp1, None) \<Rightarrow>
               if s_new \<noteq> []
               then (case identifiers h s_new of
                       None \<Rightarrow> (sp1, Some TypeError)
                     | Some sids \<Rightarrow>
                         (let t = replicate (length s_new) time
                          in (sp1\<lparr>time_appeared := time_appeared sp1 @ t,
                                  latest_time := latest_time sp1 @ t,
                                  object := object sp1 @ s_new,
                                  clade := clade sp1 @ map fst sids,
                                  species_number := species_number sp1 @ map snd sids\<rparr>,
                              None)))
               else (sp1, None)))"

text \<open>\<^verbatim>\<open>for zm in self._zone_managers: new_zones.extend(zm._create_zones())\<close>.\<close>

fun create_all_zones ::
  "('m, 'z, 's, 'x) collaborators \<Rightarrow> 'm list \<Rightarrow> ('z, 's, 'x) world
    \<Rightarrow> 'z list \<times> ('z, 's, 'x) world" where
  "create_all_zones c [] w = ([], w)"
| "create_all_zones c (zm # zms) w =
     (case create_zones c zm w of
        (new, w1) \<Rightarrow>
          (case create_all_zones c zms w1 of (new_zones, w2) \<Rightarrow> (new @ new_zones, w2)))"

text \<open>The loop over the zone managers in \<^verbatim>\<open>_get_updated_zones\<close>.\<close>

fun update_all_paths ::
  "('m, 'z, 's, 'x) collaborators \<Rightarrow> real \<Rightarrow> 'z list \<Rightarrow> 'z list \<Rightarrow> 'm list \<Rightarrow> add_on
    \<Rightarrow> ('z, 's, 'x) world \<Rightarrow> 'z list \<times> add_on \<times> ('z, 's, 'x) world" where
  "update_all_paths c time prior_zones new_zones [] add_on w = ([], add_on, w)"
| "update_all_paths c time prior_zones new_zones (zm # zms) add_on w =
     (let zm_prior_zones = filter (\<lambda>z. manager c z = zm) prior_zones;
          zm_new_zones = filter (\<lambda>z. manager c z = zm) new_zones
      in case update_paths c zm time zm_prior_zones zm_new_zones add_on w of
           (zm_dest, add_on1, w1) \<Rightarrow>
             (case update_all_paths c time prior_zones new_zones zms add_on1 w1 of
                (destinations, add_on2, w2) \<Rightarrow> (zm_dest @ destinations, add_on2, w2)))"

text \<open>\<^verbatim>\<open>_get_updated_zones\<close>: the destinations, through a set, and the component after the
  merge of the \<^verbatim>\<open>add_on\<close>.\<close>

definition get_updated_zones ::
  "('m, 'z, 's, 'x) collaborators \<Rightarrow> real \<Rightarrow> 'z list \<Rightarrow> ('m, 'z, 's, 'x) evolver
    \<Rightarrow> 'z list \<times> ('m, 'z, 's, 'x) evolver" where
  "get_updated_zones c time new_zones st =
     (let prior_time = get_prior_time (rec st);
          prior_zones = objects_at_time prior_time (zones st)
      in case update_all_paths c time prior_zones new_zones (zone_managers st) []
                (heap st, env st) of
           (destinations, add_on, (h, x)) \<Rightarrow>
             (zone_set_order c destinations,
              st\<lparr>rec := insert_record_add_on add_on (rec st), heap := h, env := x\<rparr>))"

text \<open>
  The loop \<^verbatim>\<open>for cs in child_species\<close> of \<^verbatim>\<open>_get_surviving_species\<close>:
  \<^verbatim>\<open>
    clade = cs.parent_species.clade
    cs._identifier = self._get_unused_species_id(clade)
  \<close>
  \<^verbatim>\<open>None.clade\<close> raises \<^verbatim>\<open>AttributeError\<close>, the clade of a parent without identifier
  \<^verbatim>\<open>TypeError\<close>, and a clade that is not in \<^verbatim>\<open>_species_ids\<close> \<^verbatim>\<open>KeyError\<close>.
\<close>

fun set_child_ids ::
  "'s list \<Rightarrow> species_ids \<Rightarrow> ('z, 's) heap \<Rightarrow> (species_ids \<times> ('z, 's) heap) \<times> error option"
  where
  "set_child_ids [] ids h = ((ids, h), None)"
| "set_child_ids (cs # rest) ids h =
     (case parent_species (h cs) of
        None \<Rightarrow> ((ids, h), Some AttributeError)
      | Some p \<Rightarrow>
          (case species_identifier (h p) of
             None \<Rightarrow> ((ids, h), Some TypeError)
           | Some (clade_name, n) \<Rightarrow>
               (case get_unused_species_id clade_name ids of
                  Inl e \<Rightarrow> ((ids, h), Some e)
                | Inr (sid, ids1) \<Rightarrow>
                    set_child_ids rest ids1 (h(cs := (h cs)\<lparr>species_identifier := Some sid\<rparr>)))))"

text \<open>
  The loop \<^verbatim>\<open>for es in extant_species\<close> of \<^verbatim>\<open>_get_surviving_species\<close>, on the
  \<^verbatim>\<open>add_on\<close>, the survivors so far and the component. A raise leaves the component as the
  calls made so far have changed it.
\<close>

fun evolve_species ::
  "('m, 'z, 's, 'x) collaborators \<Rightarrow> real \<Rightarrow> real \<Rightarrow> 's list \<Rightarrow> add_on \<Rightarrow> 's list
    \<Rightarrow> ('m, 'z, 's, 'x) evolver \<Rightarrow> ('m, 'z, 's, 'x) evolver \<times> (error + add_on \<times> 's list)"
  where
  "evolve_species c time dt [] add_on surviving_species st = (st, Inr (add_on, surviving_species))"
| "evolve_species c time dt (es # ess) add_on surviving_species st =
     (case evolve c es time dt add_on (heap st, env st) of
        (child_species, add_on1, (h1, x1)) \<Rightarrow>
          (let surviving1 =
                 (if extant (h1 es) then surviving_species @ [es] else surviving_species)
                 @ child_species
           in case set_child_ids child_species (species_ids st) h1 of
                ((ids2, h2), Some e) \<Rightarrow>
                  (st\<lparr>species_ids := ids2, heap := h2, env := x1\<rparr>, Inl e)
              | ((ids2, h2), None) \<Rightarrow>
                  evolve_species c time dt ess add_on1 surviving1
                    (st\<lparr>species_ids := ids2, heap := h2, env := x1\<rparr>)))"

text \<open>\<^verbatim>\<open>_get_surviving_species\<close>.\<close>

definition get_surviving_species ::
  "('m, 'z, 's, 'x) collaborators \<Rightarrow> real \<Rightarrow> real \<Rightarrow> ('m, 'z, 's, 'x) evolver
    \<Rightarrow> ('m, 'z, 's, 'x) evolver \<times> (error + 's list)" where
  "get_surviving_species c time dt st =
     (let prior_time = get_prior_time (rec st);
          extant_species = objects_at_time prior_time (species st)
      in case evolve_species c time dt extant_species [] [] st of
           (st1, Inl e) \<Rightarrow> (st1, Inl e)
         | (st1, Inr (add_on, surviving_species)) \<Rightarrow>
             (st1\<lparr>rec := insert_record_add_on add_on (rec st1)\<rparr>, Inr surviving_species))"

text \<open>How a call of \<^verbatim>\<open>run_one_step\<close> ends: it returns, it returns after the warning
  that no species exist, or it raises.\<close>

datatype outcome = Returned | Warned | Failed error

text \<open>The first part of \<^verbatim>\<open>run_one_step\<close>, up to the update of the zone ledger; it gives
  the new time.\<close>

definition zone_step ::
  "('m, 'z, 's, 'x) collaborators \<Rightarrow> real \<Rightarrow> ('m, 'z, 's, 'x) evolver
    \<Rightarrow> ('m, 'z, 's, 'x) evolver \<times> (error + real)" where
  "zone_step c dt st =
     (case py_max (time_col (rec st)) of
        Inl e \<Rightarrow> (st, Inl e)
      | Inr m \<Rightarrow>
          (let time = m + dt;
               st1 = st\<lparr>rec := (rec st)\<lparr>time_col := time_col (rec st) @ [time]\<rparr>\<rparr>
           in case create_all_zones c (zone_managers st1) (heap st1, env st1) of
                (new_zones, (h, x)) \<Rightarrow>
                  (case get_updated_zones c time new_zones (st1\<lparr>heap := h, env := x\<rparr>) of
                     (updated_zones, st2) \<Rightarrow>
                       (case update_zone_data_structure (zone_set_order c) time updated_zones
                               (zones st2) of
                          (z, Some e) \<Rightarrow> (st2\<lparr>zones := z\<rparr>, Inl e)
                        | (z, None) \<Rightarrow> (st2\<lparr>zones := z\<rparr>, Inr time)))))"

text \<open>\<^verbatim>\<open>run_one_step\<close>.\<close>

definition run_one_step ::
  "('m, 'z, 's, 'x) collaborators \<Rightarrow> real \<Rightarrow> ('m, 'z, 's, 'x) evolver
    \<Rightarrow> ('m, 'z, 's, 'x) evolver \<times> outcome" where
  "run_one_step c dt st =
     (case zone_step c dt st of
        (st1, Inl e) \<Rightarrow> (st1, Failed e)
      | (st1, Inr time) \<Rightarrow>
          if length (object (species st1)) = 0 then (st1, Warned)
          else (case get_surviving_species c time dt st1 of
                  (st2, Inl e) \<Rightarrow> (st2, Failed e)
                | (st2, Inr survivors) \<Rightarrow>
                    (case update_species_data_structure (species_set_order c) (heap st2) time
                            survivors (species st2) of
                       (sp, Some e) \<Rightarrow> (st2\<lparr>species := sp\<rparr>, Failed e)
                     | (sp, None) \<Rightarrow> (st2\<lparr>species := sp\<rparr>, Returned))))"

text \<open>
  \<^verbatim>\<open>introduce_species\<close>. Both checks raise \<^verbatim>\<open>Exception\<close>, told apart here by their
  messages: the species was already introduced, or it is not found in any zones.
\<close>

definition introduce_species ::
  "('m, 'z, 's, 'x) collaborators \<Rightarrow> 's \<Rightarrow> ('m, 'z, 's, 'x) evolver
    \<Rightarrow> ('m, 'z, 's, 'x) evolver \<times> error option" where
  "introduce_species c new_species st =
     (if new_species \<in> set (object (species st)) then (st, Some AlreadyIntroduced)
      else if szones (heap st new_species) = [] then (st, Some NotInAnyZone)
      else (case get_unused_clade_name (species_ids st) of
              (clade_name, ids1) \<Rightarrow>
                (case get_unused_species_id clade_name ids1 of
                   Inl e \<Rightarrow> (st\<lparr>species_ids := ids1\<rparr>, Some e)
                 | Inr (sid, ids2) \<Rightarrow>
                     (let st1 = st\<lparr>species_ids := ids2,
                                   heap := (heap st)(new_species :=
                                     (heap st new_species)\<lparr>species_identifier := Some sid\<rparr>)\<rparr>
                      in case py_max (time_col (rec st1)) of
                           Inl e \<Rightarrow> (st1, Some e)
                         | Inr time \<Rightarrow>
                             (case update_species_data_structure (species_set_order c)
                                     (heap st1) time [new_species] (species st1) of
                                (sp, e) \<Rightarrow> (st1\<lparr>species := sp\<rparr>, e))))))"

text \<open>
  \<^verbatim>\<open>__init__\<close> with a list of zone managers: the record holds the initial time, the
  ledgers and \<^verbatim>\<open>_species_ids\<close> are empty, and the initial zones are put in the zone
  ledger.
\<close>

definition init ::
  "('m, 'z, 's, 'x) collaborators \<Rightarrow> real \<Rightarrow> 'm list \<Rightarrow> ('z, 's, 'x) world
    \<Rightarrow> ('m, 'z, 's, 'x) evolver \<times> error option" where
  "init c initial_time zms w =
     (case create_all_zones c zms w of
        (initial_zones, (h, x)) \<Rightarrow>
          (case update_zone_data_structure (zone_set_order c) initial_time initial_zones
                  \<lparr>time_appeared = [], latest_time = [], object = []\<rparr> of
             (z, e) \<Rightarrow>
               (\<lparr>rec = \<lparr>time_col = [initial_time], columns = []\<rparr>,
                 species = \<lparr>time_appeared = [], latest_time = [], object = [],
                            clade = [], species_number = []\<rparr>,
                 zones = z, species_ids = [], zone_managers = zms, heap = h, env = x\<rparr>, e)))"





section \<open>A small instance\<close>

text \<open>
  Collaborators for the examples, with numbers as the identities of zone managers, zones
  and species. One manager owns every zone, creates none and carries the prior and the
  new zones over. A species \<open>s\<close> stays extant and speciates at every step: its child is
  the object \<open>s + 10\<close>, in the zones of its parent. Sets are iterated in the order of
  first insertion.
\<close>

definition speciating :: "(nat, nat, nat, unit) collaborators" where
  "speciating =
     \<lparr>create_zones = (\<lambda>zm w. ([], w)),
      manager = (\<lambda>z. 0),
      update_paths = (\<lambda>zm time prior new add_on w. (prior @ new, add_on, w)),
      evolve = (\<lambda>es time dt add_on (h, x).
        ([es + 10], add_on,
         (h(es + 10 := \<lparr>species_identifier = None, parent_species = Some es,
                         szones = szones (h es), extant = True\<rparr>), x))),
      zone_set_order = remdups,
      species_set_order = remdups\<rparr>"

text \<open>The same, but a child does not refer to its parent.\<close>

definition orphaning :: "(nat, nat, nat, unit) collaborators" where
  "orphaning =
     speciating\<lparr>evolve := (\<lambda>es time dt add_on (h, x).
        ([es + 10], add_on,
         (h(es + 10 := \<lparr>species_identifier = None, parent_species = None,
                         szones = szones (h es), extant = True\<rparr>), x)))\<rparr>"

text \<open>A component at time 0 with the zone 0 and the species 1, which is \<open>A.0\<close> and lives in
  zone 0. The object 2 is a species without zones; every other object is a species in
  zone 0 that was not introduced.\<close>

definition one_species :: "(nat, nat, nat, unit) evolver" where
  "one_species =
     \<lparr>rec = \<lparr>time_col = [0], columns = []\<rparr>,
      species = \<lparr>time_appeared = [0], latest_time = [0], object = [1],
                 clade = [''A''], species_number = [0]\<rparr>,
      zones = \<lparr>time_appeared = [0], latest_time = [0], object = [0]\<rparr>,
      species_ids = [(''A'', Some 0)],
      zone_managers = [0],
      heap = (\<lambda>s. \<lparr>species_identifier = (if s = 1 then Some (''A'', 0) else None),
                    parent_species = None,
                    szones = (if s = 2 then [] else [0]),
                    extant = True\<rparr>),
      env = ()\<rparr>"



text \<open>The manager of \<open>speciating\<close>, reporting the count \<open>splits\<close> at time 1 and the count
  \<open>merges\<close> at any other time.\<close>

definition reporting :: "(nat, nat, nat, unit) collaborators" where
  "reporting =
     speciating\<lparr>update_paths := (\<lambda>zm time prior new add_on w.
        (prior @ new,
         AList.update (if time = 1 then ''splits'' else ''merges'') 2 add_on, w))\<rparr>"

section \<open>Properties of the identifier allocation\<close>

declare clade_name_loop.simps [simp del]

lemma cons_block_sorted:
  "sorted_wrt (<) ys \<Longrightarrow> sorted_wrt (<) (map ((#) (c::char)) ys)"
  by (simp add: sorted_wrt_map)

lemma product_block_sorted:
  fixes cs :: "char list"
  assumes "sorted_wrt (<) cs" "sorted_wrt (<) ys"
  shows "sorted_wrt (<) (concat (map (\<lambda>c. map ((#) c) ys) cs))"
  using assms(1)
proof (induction cs)
  case Nil
  show ?case by simp
next
  case (Cons c cs)
  then show ?case
    using assms(2) by (auto simp: sorted_wrt_append sorted_wrt_map)
qed

lemma ascii_uppercase_sorted: "sorted_wrt (<) ascii_uppercase"
  by (simp add: ascii_uppercase_def)

lemma product_names_Suc:
  "product_names (Suc sz) =
     concat (map (\<lambda>c. map ((#) c) (product_names sz)) ascii_uppercase)"
  by (simp add: product_names_def)

lemma product_names_sorted: "sorted_wrt (<) (product_names sz)"
proof (induction sz)
  case 0
  show ?case by (simp add: product_names_def)
next
  case (Suc sz)
  then show ?case
    unfolding product_names_Suc
    by (rule product_block_sorted [OF ascii_uppercase_sorted])
qed

lemma sort_remdups_id:
  fixes xs :: "string list"
  assumes "sorted_wrt (<) xs"
  shows "sort (remdups xs) = xs"
proof -
  from assms have "sorted xs" "distinct xs"
    by (simp_all add: strict_sorted_iff)
  then show ?thesis
    by (simp add: sort_key_id_if_sorted)
qed

lemma setdiff1d_product_names:
  "setdiff1d (product_names sz) used = filter (\<lambda>x. x \<notin> set used) (product_names sz)"
  by (simp add: setdiff1d_def sort_remdups_id product_names_sorted)

lemma clade_name_loop_nonempty: "clade_name_loop used sz p \<noteq> []"
  by (induction used sz p rule: clade_name_loop.induct)
     (subst clade_name_loop.simps, auto)

lemma clade_name_loop_unused:
  "set p \<inter> set used = {} \<Longrightarrow> set (clade_name_loop used sz p) \<inter> set used = {}"
proof (induction used sz p rule: clade_name_loop.induct)
  case (1 used sz p)
  show ?case
  proof (cases "p = []")
    case True
    have "set (setdiff1d (product_names sz) used) \<inter> set used = {}"
      by (auto simp: setdiff1d_def)
    with 1 True show ?thesis
      by (subst clade_name_loop.simps) simp
  next
    case False
    with 1 show ?thesis
      by (subst clade_name_loop.simps) simp
  qed
qed

lemma update_absent_append:
  "k \<notin> fst ` set al \<Longrightarrow> AList.update k v al = al @ [(k, v)]"
  by (induction al) auto

lemma get_unused_clade_name_fresh:
  "fst (get_unused_clade_name ids) \<notin> fst ` set ids"
proof -
  let ?used = "map fst ids"
  let ?p = "clade_name_loop ?used 1 (setdiff1d alphabet ?used)"
  have "set (setdiff1d alphabet ?used) \<inter> set ?used = {}"
    by (auto simp: setdiff1d_def)
  then have "set ?p \<inter> set ?used = {}"
    by (rule clade_name_loop_unused)
  moreover have "?p \<noteq> []"
    by (rule clade_name_loop_nonempty)
  then have "hd ?p \<in> set ?p" by simp
  ultimately have "hd ?p \<notin> set ?used" by blast
  then show ?thesis
    by (simp add: get_unused_clade_name_def Let_def)
qed

lemma get_unused_clade_name_ids:
  "snd (get_unused_clade_name ids) = ids @ [(fst (get_unused_clade_name ids), None)]"
proof -
  have "snd (get_unused_clade_name ids) =
        AList.update (fst (get_unused_clade_name ids)) None ids"
    by (simp add: get_unused_clade_name_def Let_def)
  then show ?thesis
    using update_absent_append [OF get_unused_clade_name_fresh] by simp
qed

text \<open>The loop returns the unused names of the first length, from \<open>sz\<close> on, that has one.\<close>

lemma clade_name_loop_first:
  assumes "\<forall>k. sz \<le> k \<and> k < m \<longrightarrow> setdiff1d (product_names k) used = []"
    and "setdiff1d (product_names m) used \<noteq> []" and "sz \<le> m"
  shows "clade_name_loop used sz [] = setdiff1d (product_names m) used"
  using assms
proof (induction "m - sz" arbitrary: sz)
  case 0
  then have "sz = m" by simp
  with 0 show ?case
    by (subst clade_name_loop.simps, simp, subst clade_name_loop.simps, simp)
next
  case (Suc d)
  then have e: "setdiff1d (product_names sz) used = []" by simp
  have "clade_name_loop used (Suc sz) [] = setdiff1d (product_names m) used"
    using Suc by (intro Suc(1)) auto
  with e show ?case
    by (subst clade_name_loop.simps) simp
qed

lemma product_names_length: "n \<in> set (product_names sz) \<Longrightarrow> length n = sz"
  unfolding product_names_def by (auto dest: in_set_product_lists_length)

lemma product_names_nonempty: "product_names sz \<noteq> []"
proof (induction sz)
  case 0
  show ?case by (simp add: product_names_def)
next
  case (Suc sz)
  then obtain n ns where "product_names sz = n # ns"
    by (cases "product_names sz") auto
  then show ?case
    by (simp add: product_names_Suc ascii_uppercase_def)
qed


lemma product_names_1: "product_names (Suc 0) = alphabet"
proof -
  have "concat (map (\<lambda>x. [[x]]) xs) = map (\<lambda>c. [c]) xs" for xs :: "char list"
    by (induction xs) auto
  then show ?thesis
    by (simp add: product_names_def alphabet_def)
qed

lemma length_alphabet: "length alphabet = 26"
  by (simp add: alphabet_def ascii_uppercase_def)

lemma alphabet_sorted: "sorted_wrt (<) alphabet"
  using product_names_sorted [of "Suc 0"] by (simp add: product_names_1)

lemma filter_not_in_take:
  assumes "distinct xs"
  shows "filter (\<lambda>x. x \<notin> set (take k xs)) xs = drop k xs"
proof -
  have disj: "set (take k xs) \<inter> set (drop k xs) = {}"
    using assms by (rule set_take_disj_set_drop_if_distinct) simp
  have "filter (\<lambda>x. x \<notin> set (take k xs)) (take k xs @ drop k xs) = drop k xs"
    unfolding filter_append using disj by (auto simp: filter_empty_conv filter_id_conv)
  then show ?thesis by simp
qed

lemma get_unused_clade_name_first:
  assumes m: "1 \<le> m"
    and full: "\<forall>k. 1 \<le> k \<and> k < m \<longrightarrow> set (product_names k) \<subseteq> fst ` set ids"
    and free: "\<not> set (product_names m) \<subseteq> fst ` set ids"
  shows "fst (get_unused_clade_name ids) =
         hd (filter (\<lambda>n. n \<notin> fst ` set ids) (product_names m))"
proof -
  let ?used = "map fst ids"
  have sd: "setdiff1d (product_names k) ?used = filter (\<lambda>n. n \<notin> fst ` set ids) (product_names k)"
    for k by (simp add: setdiff1d_product_names)
  have e: "setdiff1d (product_names k) ?used = []" if "1 \<le> k" "k < m" for k
    using full that unfolding sd by (auto simp: filter_empty_conv)
  have ne: "setdiff1d (product_names m) ?used \<noteq> []"
    using free unfolding sd by (auto simp: filter_empty_conv)
  have "clade_name_loop ?used 1 (setdiff1d (product_names 1) ?used)
        = setdiff1d (product_names m) ?used"
  proof (cases "m = 1")
    case True
    with ne show ?thesis
      by (subst clade_name_loop.simps) simp
  next
    case False
    with m have "1 < m" by simp
    then have "setdiff1d (product_names 1) ?used = []"
      using e [of 1] by simp
    moreover have "clade_name_loop ?used 1 [] = setdiff1d (product_names m) ?used"
      using e ne m by (intro clade_name_loop_first) auto
    ultimately show ?thesis by simp
  qed
  then show ?thesis
    by (simp add: get_unused_clade_name_def Let_def sd product_names_1)
qed

lemma get_unused_clade_name_single:
  assumes "map fst ids = take k alphabet" and "k < 26"
  shows "fst (get_unused_clade_name ids) = alphabet ! k"
proof -
  have d: "distinct alphabet"
    using alphabet_sorted by (simp add: strict_sorted_iff)
  have keys: "fst ` set ids = set (take k alphabet)"
    using assms(1) by (metis set_map)
  have f: "filter (\<lambda>n. n \<notin> fst ` set ids) alphabet = drop k alphabet"
    unfolding keys by (rule filter_not_in_take [OF d])
  have "alphabet ! k \<in> set (drop k alphabet)"
    using assms(2) length_alphabet
    by (metis Cons_nth_drop_Suc list.set_intros(1))
  then have "alphabet ! k \<in> set (filter (\<lambda>n. n \<notin> fst ` set ids) alphabet)"
    using f by simp
  then have "\<not> set (product_names 1) \<subseteq> fst ` set ids"
    by (auto simp: product_names_1)
  then have "fst (get_unused_clade_name ids) =
      hd (filter (\<lambda>n. n \<notin> fst ` set ids) (product_names 1))"
    by (intro get_unused_clade_name_first) auto
  then have "fst (get_unused_clade_name ids) =
      hd (filter (\<lambda>n. n \<notin> fst ` set ids) alphabet)"
    by (simp add: product_names_1)
  then have "fst (get_unused_clade_name ids) = hd (drop k alphabet)"
    unfolding f .
  moreover have "hd (drop k alphabet) = alphabet ! k"
    using assms(2) length_alphabet by (intro hd_drop_conv_nth) simp
  ultimately show ?thesis by simp
qed

lemma allocate_clades_singles:
  assumes "map fst ids = take k alphabet" and "k + n \<le> 26"
  shows "allocate_clades n ids = take n (drop k alphabet)"
  using assms
proof (induction n arbitrary: ids k)
  case 0
  show ?case by simp
next
  case (Suc n)
  obtain c ids' where g: "get_unused_clade_name ids = (c, ids')"
    by (cases "get_unused_clade_name ids")
  from Suc.prems have k: "k < 26" by simp
  have c: "c = alphabet ! k"
    using get_unused_clade_name_single [OF Suc.prems(1) k] g by simp
  have "ids' = ids @ [(c, None)]"
    using get_unused_clade_name_ids [of ids] g by simp
  then have "map fst ids' = take (Suc k) alphabet"
    using Suc.prems(1) c k by (simp add: take_Suc_conv_app_nth length_alphabet)
  then have "allocate_clades n ids' = take n (drop (Suc k) alphabet)"
    using Suc.prems(2) by (intro Suc.IH) auto
  moreover have "drop k alphabet = c # drop (Suc k) alphabet"
    using c k by (simp add: Cons_nth_drop_Suc length_alphabet)
  ultimately show ?case
    using g by simp
qed

lemma allocate_clades_append:
  "allocate_clades (n + m) ids =
     allocate_clades n ids @ allocate_clades m (ids @ map (\<lambda>c. (c, None)) (allocate_clades n ids))"
proof (induction n arbitrary: ids)
  case 0
  show ?case by simp
next
  case (Suc n)
  obtain c ids' where g: "get_unused_clade_name ids = (c, ids')"
    by (cases "get_unused_clade_name ids")
  have "ids' = ids @ [(c, None)]"
    using get_unused_clade_name_ids [of ids] g by simp
  with Suc [of ids'] g show ?case by simp
qed

lemma hd_product_names_2: "hd (product_names 2) = ''AA''"
proof -
  have "product_names 2 = concat (map (\<lambda>c. map ((#) c) alphabet) ascii_uppercase)"
    using product_names_Suc [of "Suc 0"] by (simp add: numeral_2_eq_2 product_names_1)
  then show ?thesis
    by (simp add: alphabet_def ascii_uppercase_def)
qed

lemma allocate_clade_27th:
  assumes "map fst ids = alphabet"
  shows "fst (get_unused_clade_name ids) = ''AA''"
proof -
  have keys: "fst ` set ids = set (product_names 1)"
    using assms by (metis set_map product_names_1 One_nat_def)
  have "product_names 2 \<noteq> []"
    by (rule product_names_nonempty)
  then have hd_in: "hd (product_names 2) \<in> set (product_names 2)" by simp
  have nin: "hd (product_names 2) \<notin> fst ` set ids"
    unfolding keys using product_names_length [OF hd_in] product_names_length [of _ 1] by auto
  have "fst (get_unused_clade_name ids) =
        hd (filter (\<lambda>n. n \<notin> fst ` set ids) (product_names 2))"
    using hd_in nin keys by (intro get_unused_clade_name_first) (auto simp: less_2_cases_iff)
  moreover have "hd (filter (\<lambda>n. n \<notin> fst ` set ids) (product_names 2)) = hd (product_names 2)"
    using nin \<open>product_names 2 \<noteq> []\<close> by (cases "product_names 2") auto
  ultimately show ?thesis
    by (simp add: hd_product_names_2)
qed

text \<open>
  C3. From a fresh allocator the first 26 clade names are the letters A to Z in order and
  the 27th is AA. A returned name was never issued before, and it is the first unused name,
  in product order, of the shortest length that still has an unused name.
\<close>

theorem clade_names_in_order:
  "allocate_clades 27 [] =
     map (\<lambda>c. [c]) ''ABCDEFGHIJKLMNOPQRSTUVWXYZ'' @ [''AA'']
   \<and> (\<forall>ids. fst (get_unused_clade_name ids) \<notin> fst ` set ids)
   \<and> (\<forall>ids m. 1 \<le> m
         \<and> (\<forall>k. 1 \<le> k \<and> k < m \<longrightarrow> set (product_names k) \<subseteq> fst ` set ids)
         \<and> \<not> set (product_names m) \<subseteq> fst ` set ids
        \<longrightarrow> fst (get_unused_clade_name ids) =
            hd (filter (\<lambda>n. n \<notin> fst ` set ids) (product_names m)))"
proof (intro conjI allI impI)
  have first: "allocate_clades 26 [] = alphabet"
    using allocate_clades_singles [of "[]" 0 26] by (simp add: length_alphabet)
  have "map fst (map (\<lambda>c. (c, None :: int option)) alphabet) = alphabet"
    by (simp add: comp_def)
  then have "fst (get_unused_clade_name (map (\<lambda>c. (c, None)) alphabet)) = ''AA''"
    by (rule allocate_clade_27th)
  then have last: "allocate_clades 1 (map (\<lambda>c. (c, None)) alphabet) = [''AA'']"
    by (auto split: prod.splits)
  have "allocate_clades (26 + 1) [] = alphabet @ [''AA'']"
    unfolding allocate_clades_append first using last by simp
  then show "allocate_clades 27 [] =
     map (\<lambda>c. [c]) ''ABCDEFGHIJKLMNOPQRSTUVWXYZ'' @ [''AA'']"
    by (simp add: alphabet_def ascii_uppercase_def)
next
  fix ids :: species_ids
  show "fst (get_unused_clade_name ids) \<notin> fst ` set ids"
    by (rule get_unused_clade_name_fresh)
next
  fix ids :: species_ids and m :: nat
  assume "1 \<le> m
         \<and> (\<forall>k. 1 \<le> k \<and> k < m \<longrightarrow> set (product_names k) \<subseteq> fst ` set ids)
         \<and> \<not> set (product_names m) \<subseteq> fst ` set ids"
  then show "fst (get_unused_clade_name ids) =
            hd (filter (\<lambda>n. n \<notin> fst ` set ids) (product_names m))"
    by (intro get_unused_clade_name_first) auto
qed

lemma product_names_2_front: "\<exists>rest. product_names 2 = ''AA'' # ''AB'' # rest"
proof -
  have "product_names 2 = concat (map (\<lambda>c. map ((#) c) alphabet) ascii_uppercase)"
    using product_names_Suc [of "Suc 0"] by (simp add: numeral_2_eq_2 product_names_1)
  then show ?thesis
    by (simp add: alphabet_def ascii_uppercase_def)
qed

theorem clade_names_in_order_witness:
  "fst (get_unused_clade_name (map (\<lambda>c. (c, None)) (alphabet @ [''AA'']))) = ''AB''"
proof -
  let ?ids = "map (\<lambda>c. (c, None :: int option)) (alphabet @ [''AA''])"
  have keys: "fst ` set ?ids = set alphabet \<union> {''AA''}"
    by (auto simp: image_iff)
  obtain rest where r: "product_names 2 = ''AA'' # ''AB'' # rest"
    using product_names_2_front by blast
  have ab: "''AB'' \<notin> fst ` set ?ids"
    unfolding keys by (simp add: alphabet_def ascii_uppercase_def)
  have h1: "(1::nat) \<le> 2" by simp
  have h2: "\<forall>k. 1 \<le> k \<and> k < 2 \<longrightarrow> set (product_names k) \<subseteq> fst ` set ?ids"
    unfolding keys by (auto simp: less_2_cases_iff product_names_1)
  have h3: "\<not> set (product_names 2) \<subseteq> fst ` set ?ids"
    using ab r by auto
  have "fst (get_unused_clade_name ?ids) =
        hd (filter (\<lambda>n. n \<notin> fst ` set ?ids) (product_names 2))"
    using clade_names_in_order h1 h2 h3 by blast
  also have "\<dots> = ''AB''"
    unfolding r using ab by (simp add: keys)
  finally show ?thesis .
qed

text \<open>The number the next call for a clade returns, from the dict's value for it.\<close>

lemma get_unused_clade_name_update:
  "snd (get_unused_clade_name ids) = AList.update (fst (get_unused_clade_name ids)) None ids"
  by (simp add: get_unused_clade_name_def Let_def)

lemma map_of_key: "map_of al k = Some v \<Longrightarrow> k \<in> fst ` set al"
  by (drule map_of_SomeD) force

lemma apply_alloc_other:
  assumes "map_of ids c = Some v" and "x \<noteq> AllocateSpecies c"
  shows "map_of (snd (apply_alloc x ids)) c = Some v"
    and "\<forall>n. fst (apply_alloc x ids) \<noteq> SpeciesId (c, n)"
proof -
  show "map_of (snd (apply_alloc x ids)) c = Some v"
  proof (cases x)
    case AllocateClade
    have "fst (get_unused_clade_name ids) \<noteq> c"
      using get_unused_clade_name_fresh [of ids] map_of_key [OF assms(1)] by auto
    then show ?thesis
      using AllocateClade assms(1) get_unused_clade_name_update [of ids]
      by (auto simp: update_conv' split: prod.splits)
  next
    case (AllocateSpecies c')
    with assms(2) have "c' \<noteq> c" by simp
    then show ?thesis
      using AllocateSpecies assms(1)
      by (auto simp: get_unused_species_id_def update_conv' split: option.splits)
  qed
  show "\<forall>n. fst (apply_alloc x ids) \<noteq> SpeciesId (c, n)"
    using assms(2)
    by (cases x) (auto simp: get_unused_species_id_def split: prod.splits option.splits)
qed

lemma apply_alloc_same:
  assumes "map_of ids c = Some v"
  shows "apply_alloc (AllocateSpecies c) ids =
         (SpeciesId (c, case v of None \<Rightarrow> 0 | Some n \<Rightarrow> n + 1),
          AList.update c (Some (case v of None \<Rightarrow> 0 | Some n \<Rightarrow> n + 1)) ids)"
  using assms by (auto simp: get_unused_species_id_def split: option.splits)

lemma run_alloc_clade_numbers:
  assumes "map_of ids c = Some v"
  shows "filter (\<lambda>p. fst p = c) (issued_ids (run_alloc ops ids)) =
         map (\<lambda>i. (c, (case v of None \<Rightarrow> 0 | Some n \<Rightarrow> n + 1) + int i))
             [0..<count_list ops (AllocateSpecies c)]"
  using assms
proof (induction ops arbitrary: ids v)
  case Nil
  show ?case by simp
next
  case (Cons x ops)
  show ?case
  proof (cases "x = AllocateSpecies c")
    case True
    let ?n = "case v of None \<Rightarrow> 0 | Some n \<Rightarrow> n + 1"
    let ?ids' = "AList.update c (Some ?n) ids"
    have step: "apply_alloc x ids = (SpeciesId (c, ?n), ?ids')"
      using True apply_alloc_same [OF Cons.prems] by simp
    have "map_of ?ids' c = Some (Some ?n)"
      by (simp add: update_conv')
    from Cons.IH [OF this]
    have "filter (\<lambda>p. fst p = c) (issued_ids (run_alloc ops ?ids')) =
          map (\<lambda>i. (c, ?n + 1 + int i)) [0..<count_list ops (AllocateSpecies c)]"
      by simp
    moreover have "map (\<lambda>i. (c, ?n + int i)) [0..<Suc (count_list ops (AllocateSpecies c))] =
          (c, ?n) # map (\<lambda>i. (c, ?n + 1 + int i)) [0..<count_list ops (AllocateSpecies c)]"
      by (simp add: map_upt_Suc add.assoc del: upt_Suc)
    ultimately show ?thesis
      using True step by (simp del: upt_Suc)
  next
    case False
    obtain out ids' where step: "apply_alloc x ids = (out, ids')"
      by (cases "apply_alloc x ids")
    have m: "map_of ids' c = Some v" and o: "\<forall>n. out \<noteq> SpeciesId (c, n)"
      using apply_alloc_other [OF Cons.prems False] step by simp_all
    have "filter (\<lambda>p. fst p = c) (issued_ids (out # run_alloc ops ids')) =
          filter (\<lambda>p. fst p = c) (issued_ids (run_alloc ops ids'))"
      using o by (cases out) auto
    then show ?thesis
      using False step Cons.IH [OF m] by simp
  qed
qed

text \<open>
  C4. After a clade name is allocated, and whatever other allocations come in between, the
  identifiers issued for that clade are (clade, 0), (clade, 1), ... in that order: the n-th
  call for the clade returns (clade, n - 1).
\<close>

theorem species_numbers_consecutive:
  "filter (\<lambda>p. fst p = fst (get_unused_clade_name ids))
          (issued_ids (run_alloc ops (snd (get_unused_clade_name ids)))) =
   map (\<lambda>i. (fst (get_unused_clade_name ids), int i))
       [0..<count_list ops (AllocateSpecies (fst (get_unused_clade_name ids)))]"
proof -
  let ?c = "fst (get_unused_clade_name ids)"
  have "map_of (snd (get_unused_clade_name ids)) ?c = Some None"
    by (simp add: get_unused_clade_name_update update_conv')
  from run_alloc_clade_numbers [OF this, of ops] show ?thesis by simp
qed

text \<open>Every identifier issued so far is below the counter of its clade.\<close>

lemma run_alloc_distinct:
  assumes "distinct acc"
    and "\<forall>(c, n) \<in> set acc. \<exists>m. map_of ids c = Some (Some m) \<and> n \<le> m"
  shows "distinct (acc @ issued_ids (run_alloc ops ids))"
  using assms
proof (induction ops arbitrary: ids acc)
  case Nil
  then show ?case by simp
next
  case (Cons x ops)
  obtain out ids' where step: "apply_alloc x ids = (out, ids')"
    by (cases "apply_alloc x ids")
  show ?case
  proof (cases "\<exists>sid. out = SpeciesId sid")
    case True
    then obtain c n where out: "out = SpeciesId (c, n)" by auto
    have x: "x = AllocateSpecies c"
      using step out
      by (cases x) (auto simp: get_unused_species_id_def split: prod.splits option.splits)
    obtain v where v: "map_of ids c = Some v"
      using step out x by (auto simp: get_unused_species_id_def split: option.splits)
    have n: "n = (case v of None \<Rightarrow> 0 | Some k \<Rightarrow> k + 1)"
      and ids': "ids' = AList.update c (Some n) ids"
      using step out x apply_alloc_same [OF v] by auto
    have fresh: "(c, n) \<notin> set acc"
    proof
      assume "(c, n) \<in> set acc"
      with Cons.prems(2) obtain m where "map_of ids c = Some (Some m)" "n \<le> m" by blast
      with v n show False by auto
    qed
    have below: "\<forall>(c', k) \<in> set (acc @ [(c, n)]). \<exists>m. map_of ids' c' = Some (Some m) \<and> k \<le> m"
    proof (clarify)
      fix c' k assume "(c', k) \<in> set (acc @ [(c, n)])"
      then consider "(c', k) = (c, n)" | "(c', k) \<in> set acc" by auto
      then show "\<exists>m. map_of ids' c' = Some (Some m) \<and> k \<le> m"
      proof cases
        case 1
        then show ?thesis by (simp add: ids' update_conv')
      next
        case 2
        with Cons.prems(2) obtain m where m: "map_of ids c' = Some (Some m)" "k \<le> m" by blast
        show ?thesis
        proof (cases "c' = c")
          case True
          with m v n show ?thesis by (simp add: ids' update_conv')
        next
          case False
          with m show ?thesis by (simp add: ids' update_conv')
        qed
      qed
    qed
    have "distinct (acc @ [(c, n)])"
      using Cons.prems(1) fresh by simp
    from Cons.IH [OF this below]
    show ?thesis using step out by simp
  next
    case False
    have keep: "\<forall>(c, n) \<in> set acc. \<exists>m. map_of ids' c = Some (Some m) \<and> n \<le> m"
    proof (clarify)
      fix c n assume "(c, n) \<in> set acc"
      with Cons.prems(2) obtain m where m: "map_of ids c = Some (Some m)" "n \<le> m" by blast
      have "x \<noteq> AllocateSpecies c"
        using False step apply_alloc_same [OF m(1)] by auto
      from apply_alloc_other(1) [OF m(1) this] step m(2)
      show "\<exists>m. map_of ids' c = Some (Some m) \<and> n \<le> m" by auto
    qed
    have "issued_ids (out # run_alloc ops ids') = issued_ids (run_alloc ops ids')"
      using False by (cases out) auto
    then show ?thesis
      using step Cons.IH [OF Cons.prems(1) keep] by simp
  qed
qed

text \<open>
  C5. Whatever sequence of clade and species-number allocations is run on a fresh
  allocator, no (clade, number) pair is issued twice.
\<close>

theorem issued_ids_distinct: "distinct (issued_ids (run_alloc ops []))"
  using run_alloc_distinct [of "[]" "[]" ops] by simp

section \<open>Properties of the ledgers\<close>

lemma mask_select:
  assumes "length as = length xs" and "length ls = length xs"
  shows "map fst (filter snd (zip xs (map2 (\<and>) (map P as) (map Q ls)))) =
         map ((!) xs) (filter (\<lambda>i. P (as ! i) \<and> Q (ls ! i)) [0..<length xs])"
  using assms
proof (induction xs arbitrary: as ls)
  case Nil
  then show ?case by simp
next
  case (Cons x xs)
  then obtain a as' l ls' where as: "as = a # as'" and ls: "ls = l # ls'"
    by (cases as; cases ls) auto
  have len: "length as' = length xs" "length ls' = length xs"
    using Cons.prems as ls by simp_all
  have shift: "[0..<length (x # xs)] = 0 # map Suc [0..<length xs]"
    by (simp add: upt_conv_Cons map_Suc_upt del: upt_Suc)
  have "map ((!) (x # xs)) (filter (\<lambda>i. P (as ! i) \<and> Q (ls ! i)) (map Suc [0..<length xs])) =
        map ((!) xs) (filter (\<lambda>i. P (as' ! i) \<and> Q (ls' ! i)) [0..<length xs])"
    by (simp add: filter_map comp_def as ls)
  then show ?case
    unfolding shift using Cons.IH [OF len] by (simp add: as ls)
qed

lemma mask_false:
  "filter snd (zip xs (map2 (\<and>) (map (\<lambda>a. False) as) bs)) = []"
proof (induction xs arbitrary: as bs)
  case Nil
  show ?case by simp
next
  case (Cons x xs)
  show ?case
  proof (cases as)
    case Nil
    then show ?thesis by simp
  next
    case as: (Cons a as')
    show ?thesis
    proof (cases bs)
      case Nil
      then show ?thesis by simp
    next
      case (Cons b bs')
      with as Cons.IH [of as' bs'] show ?thesis by simp
    qed
  qed
qed

lemma objects_at_time_nan: "objects_at_time None d = []"
  unfolding objects_at_time_def Let_def option.case by (simp only: mask_false list.map)

lemma objects_at_time_rows:
  assumes "length (time_appeared d) = length (object d)"
    and "length (latest_time d) = length (object d)"
  shows "objects_at_time (Some t) d =
         map ((!) (object d))
           (filter (\<lambda>i. time_appeared d ! i \<le> t \<and> t \<le> latest_time d ! i)
              [0..<length (object d)])"
  using mask_select [OF assms, of "\<lambda>a. a \<le> t" "\<lambda>l. t \<le> l"]
  by (simp add: objects_at_time_def Let_def)

text \<open>
  C2. At a query time \<open>t\<close> the query returns the objects of exactly the rows with
  \<open>time_appeared \<le> t \<le> latest_time\<close>, in the order of the rows; an object, which has one
  row, is returned if and only if its row satisfies the condition.
\<close>

theorem objects_at_time_extant:
  assumes "ledger_ok d"
  shows "objects_at_time (Some t) d =
           map ((!) (object d))
             (filter (\<lambda>i. time_appeared d ! i \<le> t \<and> t \<le> latest_time d ! i)
                [0..<length (object d)])
         \<and> (\<forall>i < length (object d).
               object d ! i \<in> set (objects_at_time (Some t) d) \<longleftrightarrow>
               time_appeared d ! i \<le> t \<and> t \<le> latest_time d ! i)"
proof -
  from assms have len: "length (time_appeared d) = length (object d)"
      "length (latest_time d) = length (object d)" and dist: "distinct (object d)"
    by (simp_all add: ledger_ok_def)
  note rows = objects_at_time_rows [OF len, of t]
  have "object d ! i \<in> set (objects_at_time (Some t) d) \<longleftrightarrow>
        time_appeared d ! i \<le> t \<and> t \<le> latest_time d ! i" if i: "i < length (object d)" for i
  proof
    assume "object d ! i \<in> set (objects_at_time (Some t) d)"
    then obtain j where j: "j < length (object d)" "object d ! j = object d ! i"
        "time_appeared d ! j \<le> t \<and> t \<le> latest_time d ! j"
      unfolding rows by auto
    with dist i have "j = i" by (simp add: nth_eq_iff_index_eq)
    with j show "time_appeared d ! i \<le> t \<and> t \<le> latest_time d ! i" by simp
  next
    assume "time_appeared d ! i \<le> t \<and> t \<le> latest_time d ! i"
    with i show "object d ! i \<in> set (objects_at_time (Some t) d)"
      unfolding rows by auto
  qed
  with rows show ?thesis by blast
qed

theorem objects_at_time_extant_witness:
  "objects_at_time (Some (1::int))
     \<lparr>time_appeared = [0, 1, 2], latest_time = [0, 3, 2], object = [''a'', ''b'', ''c'']\<rparr>
   = [''b'']"
proof -
  let ?d = "\<lparr>time_appeared = [0, 1, 2::int], latest_time = [0, 3, 2], object = [''a'', ''b'', ''c'']\<rparr>"
  have ok: "ledger_ok ?d" by (simp add: ledger_ok_def)
  have up: "[0..<3] = [0, 1, 2]" by (simp add: upt_rec)
  show ?thesis
    using objects_at_time_extant [OF ok, of 1] by (simp add: up)
qed

lemma index_distinct:
  "distinct xs \<Longrightarrow> i < length xs \<Longrightarrow> index xs (xs ! i) = Some i"
proof (induction xs arbitrary: i)
  case Nil
  then show ?case by simp
next
  case (Cons x xs)
  show ?case
  proof (cases i)
    case 0
    then show ?thesis by simp
  next
    case (Suc j)
    with Cons.prems have "x \<noteq> xs ! j" by auto
    with Suc Cons show ?thesis by simp
  qed
qed

lemma index_member:
  assumes "distinct xs" and "x \<in> set xs"
  shows "\<exists>i < length xs. index xs x = Some i \<and> xs ! i = x"
proof -
  from assms(2) obtain i where "i < length xs" "xs ! i = x"
    by (auto simp: in_set_conv_nth)
  with index_distinct [OF assms(1), of i] show ?thesis by auto
qed

text \<open>The loop over the updated objects sets the latest time of exactly their rows.\<close>

lemma set_latest_time_rows:
  assumes "distinct (object d)" and "length (latest_time d) = length (object d)"
    and "set ys \<subseteq> set (object d)"
  shows "set_latest_time t ys d =
         (d\<lparr>latest_time := map (\<lambda>(x, l). if x \<in> set ys then t else l)
                                (zip (object d) (latest_time d))\<rparr>, None)"
  using assms
proof (induction ys arbitrary: d)
  case Nil
  have "map (\<lambda>(x, l). l) (zip (object d) (latest_time d)) = latest_time d"
    using Nil.prems(2) by (simp add: list_eq_iff_nth_eq)
  then show ?case by simp
next
  case (Cons z zs)
  from Cons.prems obtain i where i: "i < length (object d)" "index (object d) z = Some i"
      "object d ! i = z"
    using index_member [of "object d" z] by auto
  let ?d = "d\<lparr>latest_time := (latest_time d)[i := t]\<rparr>"
  have step: "set_latest_time t (z # zs) d = set_latest_time t zs ?d"
    using i Cons.prems(2) by simp
  have "set_latest_time t zs ?d =
        (?d\<lparr>latest_time := map (\<lambda>(x, l). if x \<in> set zs then t else l)
                                (zip (object ?d) (latest_time ?d))\<rparr>, None)"
    using Cons.prems by (intro Cons.IH) simp_all
  moreover have "map (\<lambda>(x, l). if x \<in> set zs then t else l)
                   (zip (object d) ((latest_time d)[i := t])) =
                 map (\<lambda>(x, l). if x \<in> set (z # zs) then t else l)
                   (zip (object d) (latest_time d))"
  proof (rule nth_equalityI)
    show "length (map (\<lambda>(x, l). if x \<in> set zs then t else l)
                   (zip (object d) ((latest_time d)[i := t]))) =
          length (map (\<lambda>(x, l). if x \<in> set (z # zs) then t else l)
                   (zip (object d) (latest_time d)))"
      by simp
  next
    fix j
    assume "j < length (map (\<lambda>(x, l). if x \<in> set zs then t else l)
                   (zip (object d) ((latest_time d)[i := t])))"
    then have j: "j < length (object d)" "j < length (latest_time d)"
      using Cons.prems(2) by simp_all
    have "object d ! j = z \<longleftrightarrow> j = i"
      using Cons.prems(1) i j by (auto simp: nth_eq_iff_index_eq)
    then show "map (\<lambda>(x, l). if x \<in> set zs then t else l)
                   (zip (object d) ((latest_time d)[i := t])) ! j =
               map (\<lambda>(x, l). if x \<in> set (z # zs) then t else l)
                   (zip (object d) (latest_time d)) ! j"
      using j by (auto simp: nth_list_update)
  qed
  ultimately show ?case
    unfolding step by simp
qed

lemma set_iteration_facts:
  assumes "set_iteration so"
  shows "distinct (so xs)" and "set (so xs) = set xs" and "so [] = []"
proof -
  show "distinct (so xs)" "set (so xs) = set xs"
    using assms by (simp_all add: set_iteration_def)
  have "set (so []) = {}"
    using assms by (simp add: set_iteration_def)
  then show "so [] = []" by simp
qed

text \<open>The ledger after \<^verbatim>\<open>_update_zone_data_structure\<close>, in closed form.\<close>

lemma update_zone_result:
  assumes so: "set_iteration so" and ok: "ledger_ok d"
  shows "update_zone_data_structure so t zs d =
         (\<lparr>time_appeared = time_appeared d
              @ replicate (length (so (filter (\<lambda>x. x \<notin> set (object d)) zs))) t,
           latest_time = map (\<lambda>(x, l). if x \<in> set zs then t else l)
                           (zip (object d) (latest_time d))
              @ replicate (length (so (filter (\<lambda>x. x \<notin> set (object d)) zs))) t,
           object = object d @ so (filter (\<lambda>x. x \<notin> set (object d)) zs)\<rparr>, None)"
proof -
  let ?upd = "so (filter (\<lambda>x. x \<in> set (object d)) zs)"
  let ?new = "so (filter (\<lambda>x. x \<notin> set (object d)) zs)"
  from ok have dist: "distinct (object d)" and len: "length (latest_time d) = length (object d)"
    by (simp_all add: ledger_ok_def)
  have upd: "set ?upd = set zs \<inter> set (object d)"
    using set_iteration_facts(2) [OF so] by auto
  then have sub: "set ?upd \<subseteq> set (object d)" by simp
  have "map (\<lambda>(x, l). if x \<in> set ?upd then t else l) (zip (object d) (latest_time d)) =
        map (\<lambda>(x, l). if x \<in> set zs then t else l) (zip (object d) (latest_time d))"
    unfolding upd by (rule map_cong) (auto dest: set_zip_leftD)
  then have loop: "set_latest_time t ?upd d =
        (d\<lparr>latest_time := map (\<lambda>(x, l). if x \<in> set zs then t else l)
                               (zip (object d) (latest_time d))\<rparr>, None)"
    using set_latest_time_rows [OF dist len sub, of t] by simp
  show ?thesis
    by (cases "?new = []")
       (simp_all add: update_zone_data_structure_def object_set_difference_def Let_def loop)
qed

lemma update_zone_ok:
  assumes so: "set_iteration so" and ok: "ledger_ok d"
  shows "ledger_ok (fst (update_zone_data_structure so t zs d))"
  unfolding update_zone_result [OF so ok]
  using ok set_iteration_facts(1,2) [OF so] by (auto simp: ledger_ok_def)

lemma update_zone_again:
  assumes so: "set_iteration so" and ok: "ledger_ok d"
  shows "update_zone_data_structure so t zs (fst (update_zone_data_structure so t zs d)) =
         update_zone_data_structure so t zs d"
proof -
  let ?new = "so (filter (\<lambda>x. x \<notin> set (object d)) zs)"
  let ?f = "\<lambda>(x, l). if x \<in> set zs then t else l"
  let ?d1 = "fst (update_zone_data_structure so t zs d)"
  have d1: "?d1 = \<lparr>time_appeared = time_appeared d @ replicate (length ?new) t,
                   latest_time = map ?f (zip (object d) (latest_time d))
                                 @ replicate (length ?new) t,
                   object = object d @ ?new\<rparr>"
    unfolding update_zone_result [OF so ok] by simp
  have ok1: "ledger_ok ?d1"
    by (rule update_zone_ok [OF so ok])
  from ok have len: "length (latest_time d) = length (object d)"
    by (simp add: ledger_ok_def)
  have new: "set ?new = set zs - set (object d)"
    using set_iteration_facts(2) [OF so] by auto
  have "filter (\<lambda>x. x \<notin> set (object ?d1)) zs = []"
    unfolding d1 using new by (auto simp: filter_empty_conv)
  then have none: "so (filter (\<lambda>x. x \<notin> set (object ?d1)) zs) = []"
    using set_iteration_facts(3) [OF so] by simp
  have "map ?f (zip (object d @ ?new)
                  (map ?f (zip (object d) (latest_time d)) @ replicate (length ?new) t)) =
        map ?f (zip (object d) (latest_time d)) @ replicate (length ?new) t"
  proof -
    have "map ?f (zip (object d) (map ?f (zip (object d) (latest_time d)))) =
          map ?f (zip (object d) (latest_time d))"
      using len by (auto simp: list_eq_iff_nth_eq)
    moreover have "map ?f (zip ?new (replicate (length ?new) t)) = replicate (length ?new) t"
      by (auto simp: list_eq_iff_nth_eq)
    ultimately show ?thesis
      using len by simp
  qed
  then have "update_zone_data_structure so t zs ?d1 = (?d1, None)"
    unfolding update_zone_result [OF so ok1] none
    by (simp add: d1)
  then show ?thesis
    using update_zone_result [OF so ok, of t zs] by (simp add: d1)
qed

text \<open>
  C6. Reconciling a ledger with a collection of objects at a time \<open>t\<close> does not raise, and
  doing it again with the same collection at the same time changes nothing. After it no
  object has two rows; a tracked object of the collection has latest time \<open>t\<close>; a new
  object has one row, appended, with both times \<open>t\<close>; a tracked object that is not in the
  collection keeps its times.
\<close>

theorem reconcile_idempotent:
  assumes "set_iteration so" and "ledger_ok d"
    and "update_zone_data_structure so t zs d = (d1, e)"
  shows "e = None
       \<and> update_zone_data_structure so t zs d1 = (d1, None)
       \<and> ledger_ok d1
       \<and> set (object d1) = set (object d) \<union> set zs
       \<and> take (length (object d)) (object d1) = object d
       \<and> (\<forall>i < length (object d1).
            (object d1 ! i \<in> set zs \<longrightarrow> latest_time d1 ! i = t) \<and>
            (i < length (object d) \<longrightarrow>
               time_appeared d1 ! i = time_appeared d ! i \<and>
               (object d ! i \<notin> set zs \<longrightarrow> latest_time d1 ! i = latest_time d ! i)) \<and>
            (length (object d) \<le> i \<longrightarrow> time_appeared d1 ! i = t \<and> latest_time d1 ! i = t))"
proof -
  let ?new = "so (filter (\<lambda>x. x \<notin> set (object d)) zs)"
  let ?f = "\<lambda>(x, l). if x \<in> set zs then t else l"
  note res = update_zone_result [OF assms(1,2), of t zs]
  from res assms(3) have e: "e = None" by simp
  from res assms(3) have d1: "d1 = \<lparr>time_appeared = time_appeared d @ replicate (length ?new) t,
                   latest_time = map ?f (zip (object d) (latest_time d))
                                 @ replicate (length ?new) t,
                   object = object d @ ?new\<rparr>"
    by simp
  from assms(2) have len: "length (latest_time d) = length (object d)"
      "length (time_appeared d) = length (object d)"
    by (simp_all add: ledger_ok_def)
  have new: "set ?new = set zs - set (object d)"
    using set_iteration_facts(2) [OF assms(1)] by auto
  have again: "update_zone_data_structure so t zs d1 = (d1, None)"
    using update_zone_again [OF assms(1,2), of t zs] assms(3) e by simp
  have ok1: "ledger_ok d1"
    using update_zone_ok [OF assms(1,2), of t zs] assms(3) by simp
  have objs: "set (object d1) = set (object d) \<union> set zs"
    unfolding d1 using new by auto
  have pre: "take (length (object d)) (object d1) = object d"
    unfolding d1 by simp
  have rows: "(object d1 ! i \<in> set zs \<longrightarrow> latest_time d1 ! i = t) \<and>
            (i < length (object d) \<longrightarrow>
               time_appeared d1 ! i = time_appeared d ! i \<and>
               (object d ! i \<notin> set zs \<longrightarrow> latest_time d1 ! i = latest_time d ! i)) \<and>
            (length (object d) \<le> i \<longrightarrow> time_appeared d1 ! i = t \<and> latest_time d1 ! i = t)"
    if i: "i < length (object d1)" for i
  proof (cases "i < length (object d)")
    case True
    then show ?thesis
      unfolding d1 using len by (simp add: nth_append)
  next
    case False
    with i have "i - length (object d) < length ?new"
      unfolding d1 by simp
    with False show ?thesis
      unfolding d1 using len by (simp add: nth_append)
  qed
  from e again ok1 objs pre rows show ?thesis by blast
qed

theorem reconcile_idempotent_witness:
  "update_zone_data_structure remdups (2::int) [''c'', ''a'', ''d'']
     \<lparr>time_appeared = [0, 1, 2], latest_time = [0, 1, 2], object = [''a'', ''b'', ''c'']\<rparr> =
   (\<lparr>time_appeared = [0, 1, 2, 2], latest_time = [2, 1, 2, 2],
     object = [''a'', ''b'', ''c'', ''d'']\<rparr>, None)
   \<and> update_zone_data_structure remdups (2::int) [''c'', ''a'', ''d'']
     \<lparr>time_appeared = [0, 1, 2, 2], latest_time = [2, 1, 2, 2],
      object = [''a'', ''b'', ''c'', ''d'']\<rparr> =
   (\<lparr>time_appeared = [0, 1, 2, 2], latest_time = [2, 1, 2, 2],
     object = [''a'', ''b'', ''c'', ''d'']\<rparr>, None)"
proof -
  let ?d = "\<lparr>time_appeared = [0, 1, 2::int], latest_time = [0, 1, 2],
             object = [''a'', ''b'', ''c'']\<rparr>"
  let ?d1 = "\<lparr>time_appeared = [0, 1, 2, 2::int], latest_time = [2, 1, 2, 2],
              object = [''a'', ''b'', ''c'', ''d'']\<rparr>"
  have so: "set_iteration (remdups :: string list \<Rightarrow> string list)"
    by (simp add: set_iteration_def)
  have ok: "ledger_ok ?d"
    by (simp add: ledger_ok_def)
  have run: "update_zone_data_structure remdups 2 [''c'', ''a'', ''d''] ?d = (?d1, None)"
    by (simp add: update_zone_data_structure_def object_set_difference_def Let_def)
  from reconcile_idempotent [OF so ok run] run show ?thesis by simp
qed

section \<open>Properties of the record and of the queries by identifier\<close>

text \<open>What the merge does for a column: a new one is padded for the earlier ticks and
  gets the value; one that is absent from the \<^verbatim>\<open>add_on\<close> is left as it is.\<close>

lemma new_column_backfilled:
  assumes "key \<noteq> ''time''" and "key \<notin> set (map fst (columns r))"
  shows "insert_record_add_on [(key, v)] r =
         r\<lparr>columns := columns r @ [(key, replicate (length (time_col r) - 1) None @ [Some v])]\<rparr>"
proof -
  have "AList.map_entry key f (cols @ [(key, c)]) = cols @ [(key, f c)]"
    if "key \<notin> set (map fst cols)" for f and cols :: "(string \<times> cell list) list" and c
    using that by (induction cols) auto
  with assms show ?thesis by (simp add: Let_def)
qed

lemma insert_record_add_on_other:
  assumes "key \<notin> set (map fst add_on)"
  shows "map_of (columns (insert_record_add_on add_on r)) key = map_of (columns r) key"
  using assms
proof (induction add_on arbitrary: r)
  case Nil
  show ?case by simp
next
  case (Cons kv add_on)
  obtain k v where kv: "kv = (k, v)" by (cases kv)
  with Cons.prems have ne: "k \<noteq> key" and rest: "key \<notin> set (map fst add_on)" by auto
  show ?case
    unfolding kv using ne Cons.IH [OF rest]
    by (auto simp: Let_def map_of_map_entry map_add_def split: option.splits)
qed

lemma species_with_identifier_malformed:
  assumes "data_frame sp = Inr sdf"
  shows "length elems \<ge> 2 \<Longrightarrow>
           \<not> (length elems = 2 \<and> isinstance_str (elems ! 0) \<and> isinstance_int (elems ! 1)) \<Longrightarrow>
           species_with_identifier (PyTuple elems) sp = Inl TypeError"
    and "species_with_identifier (PyBool b) sp = Inl TypeError"
    and "species_with_identifier (PyFloat x) sp = Inl TypeError"
    and "species_with_identifier PyNone sp = Inl TypeError"
  using assms
  by (auto simp: species_with_identifier_def split: list.splits)

lemma species_with_identifier_no_match:
  assumes "data_frame sp = Inr sdf"
  shows "\<forall>(i, cl, n, row) \<in> set sdf. \<not> (cl = c \<and> n = k) \<Longrightarrow>
           species_with_identifier (PyTuple [PyStr c, PyInt k]) sp = Inr None"
    and "\<forall>(i, cl, row) \<in> set sdf. cl \<noteq> c \<Longrightarrow> species_with_identifier (PyStr c) sp = Inr None"
    and "\<forall>(i, cl, n, row) \<in> set sdf. n \<noteq> k \<Longrightarrow> species_with_identifier (PyInt k) sp = Inr None"
  using assms
  by (auto simp: species_with_identifier_def rows_or_none_def filter_empty_conv)

text \<open>
  C8. A tuple key with fewer than two elements does not get the error of a malformed key:
  its elements are read before its length is checked, so the call raises \<^verbatim>\<open>IndexError\<close>.
  A tuple of three elements and a key of another type get \<^verbatim>\<open>TypeError\<close>, and a
  well-formed key that matches no species gets \<^verbatim>\<open>None\<close>.
\<close>

theorem short_tuple_key_index_error:
  "species_with_identifier (PyTuple [])
     \<lparr>time_appeared = [0::real], latest_time = [0], object = [1::nat],
      clade = [''A''], species_number = [0]\<rparr> = Inl IndexError
   \<and> species_with_identifier (PyTuple [PyStr ''A''])
     \<lparr>time_appeared = [0::real], latest_time = [0], object = [1::nat],
      clade = [''A''], species_number = [0]\<rparr> = Inl IndexError
   \<and> species_with_identifier (PyTuple [PyStr ''A'', PyInt 0, PyInt 0])
     \<lparr>time_appeared = [0::real], latest_time = [0], object = [1::nat],
      clade = [''A''], species_number = [0]\<rparr> = Inl TypeError
   \<and> species_with_identifier (PyFloat 0)
     \<lparr>time_appeared = [0::real], latest_time = [0], object = [1::nat],
      clade = [''A''], species_number = [0]\<rparr> = Inl TypeError
   \<and> species_with_identifier (PyTuple [PyStr ''A'', PyInt 1])
     \<lparr>time_appeared = [0::real], latest_time = [0], object = [1::nat],
      clade = [''A''], species_number = [0]\<rparr> = Inr None"
  by (simp add: species_with_identifier_def data_frame_def rows_or_none_def)

section \<open>Properties of the component\<close>

lemma set_iteration_single:
  assumes "set_iteration so"
  shows "so [x] = [x]"
proof -
  have "distinct (so [x])" "set (so [x]) = {x}"
    using set_iteration_facts(1,2) [OF assms, of "[x]"] by simp_all
  show ?thesis
  proof (cases "so [x]")
    case Nil
    with \<open>set (so [x]) = {x}\<close> show ?thesis by simp
  next
    case (Cons y ys)
    with \<open>set (so [x]) = {x}\<close> \<open>distinct (so [x])\<close>
    have "y = x" "set ys \<subseteq> {x}" "x \<notin> set ys" by auto
    then have "ys = []" by (cases ys) auto
    with Cons \<open>y = x\<close> show ?thesis by simp
  qed
qed

lemma update_species_new:
  assumes so: "set_iteration so" and new: "s \<notin> set (object sp)"
    and sid: "species_identifier (h s) = Some (c, n)"
  shows "update_species_data_structure so h t [s] sp =
         (sp\<lparr>time_appeared := time_appeared sp @ [t],
             latest_time := latest_time sp @ [t],
             object := object sp @ [s],
             clade := clade sp @ [c],
             species_number := species_number sp @ [n]\<rparr>, None)"
  using new sid
  by (simp add: update_species_data_structure_def object_set_difference_def Let_def
        set_iteration_facts(3) [OF so] set_iteration_single [OF so])

lemma update_appended_key:
  "k \<notin> fst ` set al \<Longrightarrow> AList.update k v (al @ [(k, w)]) = al @ [(k, v)]"
  by (induction al) auto

lemma py_max_Max: "xs \<noteq> [] \<Longrightarrow> py_max xs = Inr (Max (set xs))"
  by (cases xs) (simp_all add: Max.set_eq_fold [symmetric])

text \<open>A clade name that was just allocated gets the number 0.\<close>

lemma first_species_id:
  "get_unused_species_id (fst (get_unused_clade_name ids)) (snd (get_unused_clade_name ids)) =
   Inr ((fst (get_unused_clade_name ids), 0), ids @ [(fst (get_unused_clade_name ids), Some 0)])"
proof -
  let ?c = "fst (get_unused_clade_name ids)"
  have fresh: "?c \<notin> fst ` set ids"
    by (rule get_unused_clade_name_fresh)
  have ids1: "snd (get_unused_clade_name ids) = ids @ [(?c, None)]"
    by (rule get_unused_clade_name_ids)
  have "map_of (ids @ [(?c, None)]) ?c = Some None"
    using fresh by (simp add: map_of_eq_None_iff [THEN iffD2] map_add_def)
  then show ?thesis
    unfolding ids1 get_unused_species_id_def
    by (simp add: update_appended_key [OF fresh])
qed

text \<open>
  C7. Introducing a species that is already in the species ledger, or one that occupies no
  zone, raises and leaves the component as it was. Otherwise the call does not raise: the
  species gets the identifier made of a clade name that was never issued and the number
  0, and one row for it is appended to the species ledger, with both times the latest
  time of the record.
\<close>

theorem introduce_species_outcomes:
  assumes "set_iteration (species_set_order c)"
  shows "(s \<in> set (object (species st)) \<longrightarrow>
            introduce_species c s st = (st, Some AlreadyIntroduced))
       \<and> (s \<notin> set (object (species st)) \<and> szones (heap st s) = [] \<longrightarrow>
            introduce_species c s st = (st, Some NotInAnyZone))
       \<and> (s \<notin> set (object (species st)) \<and> szones (heap st s) \<noteq> [] \<and> time_col (rec st) \<noteq> [] \<longrightarrow>
            snd (introduce_species c s st) = None
          \<and> fst (get_unused_clade_name (species_ids st)) \<notin> fst ` set (species_ids st)
          \<and> species_identifier (heap (fst (introduce_species c s st)) s) =
              Some (fst (get_unused_clade_name (species_ids st)), 0)
          \<and> species_ids (fst (introduce_species c s st)) =
              species_ids st @ [(fst (get_unused_clade_name (species_ids st)), Some 0)]
          \<and> species (fst (introduce_species c s st)) =
              (species st)
                \<lparr>time_appeared := time_appeared (species st) @ [Max (set (time_col (rec st)))],
                 latest_time := latest_time (species st) @ [Max (set (time_col (rec st)))],
                 object := object (species st) @ [s],
                 clade := clade (species st) @ [fst (get_unused_clade_name (species_ids st))],
                 species_number := species_number (species st) @ [0]\<rparr>
          \<and> zones (fst (introduce_species c s st)) = zones st
          \<and> rec (fst (introduce_species c s st)) = rec st)"
proof (intro conjI impI)
  assume "s \<in> set (object (species st))"
  then show "introduce_species c s st = (st, Some AlreadyIntroduced)"
    by (simp add: introduce_species_def)
next
  assume "s \<notin> set (object (species st)) \<and> szones (heap st s) = []"
  then show "introduce_species c s st = (st, Some NotInAnyZone)"
    by (simp add: introduce_species_def)
next
  show "fst (get_unused_clade_name (species_ids st)) \<notin> fst ` set (species_ids st)"
    by (rule get_unused_clade_name_fresh)
next
  assume a: "s \<notin> set (object (species st)) \<and> szones (heap st s) \<noteq> [] \<and> time_col (rec st) \<noteq> []"
  let ?cl = "fst (get_unused_clade_name (species_ids st))"
  let ?t = "Max (set (time_col (rec st)))"
  let ?h = "(heap st)(s := (heap st s)\<lparr>species_identifier := Some (?cl, 0)\<rparr>)"
  let ?sp = "(species st)
                \<lparr>time_appeared := time_appeared (species st) @ [?t],
                 latest_time := latest_time (species st) @ [?t],
                 object := object (species st) @ [s],
                 clade := clade (species st) @ [?cl],
                 species_number := species_number (species st) @ [0]\<rparr>"
  have upd: "update_species_data_structure (species_set_order c) ?h ?t [s] (species st) =
             (?sp, None)"
    using a by (intro update_species_new [OF assms]) simp_all
  have res: "introduce_species c s st =
        (st\<lparr>species_ids := species_ids st @ [(?cl, Some 0)], heap := ?h, species := ?sp\<rparr>, None)"
    using a first_species_id [of "species_ids st"] upd
    by (simp add: introduce_species_def py_max_Max case_prod_beta Let_def)
  show "snd (introduce_species c s st) = None"
    and "species_identifier (heap (fst (introduce_species c s st)) s) = Some (?cl, 0)"
    and "species_ids (fst (introduce_species c s st)) = species_ids st @ [(?cl, Some 0)]"
    and "species (fst (introduce_species c s st)) = ?sp"
    and "zones (fst (introduce_species c s st)) = zones st"
    and "rec (fst (introduce_species c s st)) = rec st"
    unfolding res by simp_all
qed

lemma second_clade_name: "fst (get_unused_clade_name [(''A'', Some 0)]) = ''B''"
proof -
  have "map fst [(''A'', Some (0::int))] = take 1 alphabet"
    by (simp add: alphabet_def ascii_uppercase_def)
  from get_unused_clade_name_single [OF this]
  show ?thesis by (simp add: alphabet_def ascii_uppercase_def)
qed

theorem introduce_species_outcomes_witness:
  "introduce_species speciating 1 one_species = (one_species, Some AlreadyIntroduced)
   \<and> introduce_species speciating 2 one_species = (one_species, Some NotInAnyZone)
   \<and> snd (introduce_species speciating 3 one_species) = None
   \<and> species_identifier (heap (fst (introduce_species speciating 3 one_species)) 3) =
       Some (''B'', 0)
   \<and> species (fst (introduce_species speciating 3 one_species)) =
       \<lparr>time_appeared = [0, 0], latest_time = [0, 0], object = [1, 3],
        clade = [''A'', ''B''], species_number = [0, 0]\<rparr>"
proof -
  have so: "set_iteration (species_set_order speciating)"
    by (simp add: speciating_def set_iteration_def)
  have ids: "species_ids one_species = [(''A'', Some 0)]"
    by (simp add: one_species_def)
  have tracked: "(1::nat) \<in> set (object (species one_species))"
    by (simp add: one_species_def)
  have unzoned: "(2::nat) \<notin> set (object (species one_species))
      \<and> szones (heap one_species 2) = []"
    by (simp add: one_species_def)
  have fresh: "(3::nat) \<notin> set (object (species one_species))
      \<and> szones (heap one_species 3) \<noteq> [] \<and> time_col (rec one_species) \<noteq> []"
    by (simp add: one_species_def)
  from introduce_species_outcomes [OF so, of 1 one_species] tracked
  have a: "introduce_species speciating 1 one_species = (one_species, Some AlreadyIntroduced)"
    by blast
  from introduce_species_outcomes [OF so, of 2 one_species] unzoned
  have b: "introduce_species speciating 2 one_species = (one_species, Some NotInAnyZone)"
    by blast
  from introduce_species_outcomes [OF so, of 3 one_species] fresh
  have c: "snd (introduce_species speciating 3 one_species) = None"
    and d: "species_identifier (heap (fst (introduce_species speciating 3 one_species)) 3) =
              Some (fst (get_unused_clade_name (species_ids one_species)), 0)"
    and e: "species (fst (introduce_species speciating 3 one_species)) =
              (species one_species)
                \<lparr>time_appeared := time_appeared (species one_species)
                    @ [Max (set (time_col (rec one_species)))],
                 latest_time := latest_time (species one_species)
                    @ [Max (set (time_col (rec one_species)))],
                 object := object (species one_species) @ [3],
                 clade := clade (species one_species)
                    @ [fst (get_unused_clade_name (species_ids one_species))],
                 species_number := species_number (species one_species) @ [0]\<rparr>"
    by blast+
  from d have d': "species_identifier (heap (fst (introduce_species speciating 3 one_species)) 3) =
       Some (''B'', 0)"
    by (simp add: ids second_clade_name)
  from e have e': "species (fst (introduce_species speciating 3 one_species)) =
       \<lparr>time_appeared = [0, 0], latest_time = [0, 0], object = [1, 3],
        clade = [''A'', ''B''], species_number = [0, 0]\<rparr>"
    unfolding ids second_clade_name by (simp add: one_species_def)
  from a b c d' e' show ?thesis by blast
qed

text \<open>The loop over the children assigns identifiers only, so it raises when it comes to
  a child without parent, if it did not raise before.\<close>

lemma set_child_ids_orphan:
  assumes "child \<in> set cs" and "parent_species (h child) = None"
  shows "\<exists>r e. set_child_ids cs ids h = (r, Some e)"
  using assms
proof (induction cs arbitrary: ids h)
  case Nil
  then show ?case by simp
next
  case (Cons x cs)
  show ?case
  proof (cases "parent_species (h x)")
    case None
    then show ?thesis by simp
  next
    case (Some p)
    show ?thesis
    proof (cases "species_identifier (h p)")
      case None
      with Some show ?thesis by simp
    next
      case sid: (Some cn)
      obtain clade_name n where cn: "cn = (clade_name, n)" by (cases cn)
      show ?thesis
      proof (cases "get_unused_species_id clade_name ids")
        case (Inl e)
        with Some sid cn show ?thesis by simp
      next
        case (Inr r)
        obtain sid' ids1 where r: "r = (sid', ids1)" by (cases r)
        let ?h = "h(x := (h x)\<lparr>species_identifier := Some sid'\<rparr>)"
        from Some Cons.prems have "child \<noteq> x" by auto
        with Cons.prems have "child \<in> set cs" "parent_species (?h child) = None" by auto
        then have "\<exists>r e. set_child_ids cs ids1 ?h = (r, Some e)"
          by (rule Cons.IH)
        then show ?thesis using Some sid cn Inr r by simp
      qed
    qed
  qed
qed

lemma evolve_species_append:
  "evolve_species c time dt (pre @ post) add_on surv st =
     (case evolve_species c time dt pre add_on surv st of
        (st1, Inl e) \<Rightarrow> (st1, Inl e)
      | (st1, Inr (add_on1, surv1)) \<Rightarrow> evolve_species c time dt post add_on1 surv1 st1)"
proof (induction pre arbitrary: add_on surv st)
  case Nil
  show ?case by simp
next
  case (Cons es pre)
  show ?case
    by (simp add: Cons.IH Let_def split: prod.splits option.splits)
qed

text \<open>The species step before the update of the species ledger touches neither ledger.\<close>

lemma evolve_species_ledgers:
  "species (fst (evolve_species c time dt ess add_on surv st)) = species st
   \<and> zones (fst (evolve_species c time dt ess add_on surv st)) = zones st
   \<and> rec (fst (evolve_species c time dt ess add_on surv st)) = rec st"
proof (induction ess arbitrary: add_on surv st)
  case Nil
  show ?case by simp
next
  case (Cons es ess)
  show ?case
    by (simp add: Cons.IH Let_def split: prod.splits option.splits)
qed

lemma zone_step_species: "species (fst (zone_step c dt st)) = species st"
  by (simp add: zone_step_def get_updated_zones_def Let_def
        split: sum.splits prod.splits option.splits)

text \<open>
  C10. In the species step of \<^verbatim>\<open>run_one_step\<close>, when the loop over the extant species
  comes to a species whose evolution returns a child without parent species, the call
  raises. The species ledger is then as it was before the call and the species
  contributions are not merged into the record, while the zone ledger is as the zone
  step of the same call left it.
\<close>

theorem orphan_child_raises:
  assumes "zone_step c dt st = (st1, Inr time)"
    and "object (species st1) \<noteq> []"
    and "objects_at_time (get_prior_time (rec st1)) (species st1) = pre @ es # post"
    and "evolve_species c time dt pre [] [] st1 = (st2, Inr (add_on, surv))"
    and "evolve c es time dt add_on (heap st2, env st2) = (children, add_on1, (h1, x1))"
    and "child \<in> set children"
    and "parent_species (h1 child) = None"
  shows "(\<exists>e. snd (run_one_step c dt st) = Failed e)
       \<and> species (fst (run_one_step c dt st)) = species st
       \<and> zones (fst (run_one_step c dt st)) = zones st1
       \<and> rec (fst (run_one_step c dt st)) = rec st1"
proof -
  obtain r e where ids: "set_child_ids children (species_ids st2) h1 = (r, Some e)"
    using set_child_ids_orphan [of child children h1 "species_ids st2"] assms(6,7) by blast
  obtain ids2 h2 where r: "r = (ids2, h2)" by (cases r)
  let ?st3 = "st2\<lparr>species_ids := ids2, heap := h2, env := x1\<rparr>"
  have "evolve_species c time dt (es # post) add_on surv st2 = (?st3, Inl e)"
    using assms(5) ids r by (simp add: Let_def)
  then have "evolve_species c time dt (pre @ es # post) [] [] st1 = (?st3, Inl e)"
    using assms(4) by (simp add: evolve_species_append)
  then have surv: "get_surviving_species c time dt st1 = (?st3, Inl e)"
    using assms(3) by (simp add: get_surviving_species_def Let_def)
  have run: "run_one_step c dt st = (?st3, Failed e)"
    using assms(1,2) surv by (simp add: run_one_step_def)
  have st2: "species st2 = species st1" "zones st2 = zones st1" "rec st2 = rec st1"
    using evolve_species_ledgers [of c time dt pre "[]" "[]" st1] assms(4) by simp_all
  have "species st1 = species st"
    using zone_step_species [of c dt st] assms(1) by simp
  with run st2 show ?thesis by simp
qed

theorem orphan_child_raises_witness:
  "(\<exists>e. snd (run_one_step orphaning 1 one_species) = Failed e)
   \<and> species (fst (run_one_step orphaning 1 one_species)) =
       \<lparr>time_appeared = [0], latest_time = [0], object = [1],
        clade = [''A''], species_number = [0]\<rparr>
   \<and> zones (fst (run_one_step orphaning 1 one_species)) =
       \<lparr>time_appeared = [0], latest_time = [1], object = [0]\<rparr>
   \<and> rec (fst (run_one_step orphaning 1 one_species)) = \<lparr>time_col = [0, 1], columns = []\<rparr>"
proof -
  let ?st1 = "fst (zone_step orphaning 1 one_species)"
  let ?h1 = "(heap ?st1)(11 := \<lparr>species_identifier = None, parent_species = None,
                                 szones = szones (heap ?st1 1), extant = True\<rparr>)"
  have time: "snd (zone_step orphaning 1 one_species) = Inr 1"
    by (simp add: zone_step_def get_updated_zones_def Let_def orphaning_def speciating_def
          one_species_def get_prior_time_def objects_at_time_def
          update_zone_data_structure_def object_set_difference_def)
  have z: "zones ?st1 = \<lparr>time_appeared = [0], latest_time = [1], object = [0]\<rparr>"
    by (simp add: zone_step_def get_updated_zones_def Let_def orphaning_def speciating_def
          one_species_def get_prior_time_def objects_at_time_def
          update_zone_data_structure_def object_set_difference_def)
  have r: "rec ?st1 = \<lparr>time_col = [0, 1], columns = []\<rparr>"
    by (simp add: zone_step_def get_updated_zones_def Let_def orphaning_def speciating_def
          one_species_def get_prior_time_def objects_at_time_def
          update_zone_data_structure_def object_set_difference_def)
  have sp: "species ?st1 = \<lparr>time_appeared = [0], latest_time = [0], object = [1],
        clade = [''A''], species_number = [0]\<rparr>"
    by (simp add: zone_step_species one_species_def)
  have a1: "zone_step orphaning 1 one_species = (?st1, Inr 1)"
    using time by (simp add: prod_eq_iff)
  have a2: "object (species ?st1) \<noteq> []"
    by (simp add: sp)
  have a3: "objects_at_time (get_prior_time (rec ?st1)) (species ?st1) = [] @ 1 # []"
    by (simp add: sp r get_prior_time_def objects_at_time_def)
  have a4: "evolve_species orphaning 1 1 [] [] [] ?st1 = (?st1, Inr ([], []))"
    by simp
  have a5: "evolve orphaning 1 1 1 [] (heap ?st1, env ?st1) = ([11], [], (?h1, env ?st1))"
    by (simp add: orphaning_def speciating_def)
  have a6: "(11::nat) \<in> set [11]" by simp
  have a7: "parent_species (?h1 11) = None" by simp
  have sp0: "species one_species = \<lparr>time_appeared = [0], latest_time = [0], object = [1],
        clade = [''A''], species_number = [0]\<rparr>"
    by (simp add: one_species_def)
  from orphan_child_raises [OF a1 a2 a3 a4 a5 a6 a7]
  show ?thesis
    unfolding z r sp0 .
qed






















text \<open>
  C1. A column that exists and is absent from the contributions of a tick gets no entry
  for the tick. Merging \<open>splits\<close> at the second tick and \<open>merges\<close> at the third pads each
  column when it is new, and leaves \<open>splits\<close> with two entries for three times. The same
  happens in two calls of \<^verbatim>\<open>run_one_step\<close> with a zone manager that reports \<open>splits\<close> at
  time 1 and \<open>merges\<close> at time 2.
\<close>

theorem absent_column_not_padded:
  "insert_record_add_on [(''splits'', 2)] \<lparr>time_col = [0, 1], columns = []\<rparr> =
     \<lparr>time_col = [0, 1], columns = [(''splits'', [None, Some 2])]\<rparr>
   \<and> insert_record_add_on [(''merges'', 2)]
        \<lparr>time_col = [0, 1, 2], columns = [(''splits'', [None, Some 2])]\<rparr> =
     \<lparr>time_col = [0, 1, 2],
      columns = [(''splits'', [None, Some 2]), (''merges'', [None, None, Some 2])]\<rparr>
   \<and> rec (fst (run_one_step reporting 1 one_species)) =
     \<lparr>time_col = [0, 1], columns = [(''splits'', [None, Some 2])]\<rparr>
   \<and> rec (fst (run_one_step reporting 1 (fst (run_one_step reporting 1 one_species)))) =
     \<lparr>time_col = [0, 1, 2],
      columns = [(''splits'', [None, Some 2]), (''merges'', [None, None, Some 2])]\<rparr>
   \<and> aligned \<lparr>time_col = [0, 1], columns = [(''splits'', [None, Some 2])]\<rparr>
   \<and> \<not> aligned \<lparr>time_col = [0, 1, 2],
                 columns = [(''splits'', [None, Some 2]), (''merges'', [None, None, Some 2])]\<rparr>"
proof -
  have merge1: "insert_record_add_on [(''splits'', 2)] \<lparr>time_col = [0, 1], columns = []\<rparr> =
     \<lparr>time_col = [0, 1], columns = [(''splits'', [None, Some 2])]\<rparr>"
    by (simp add: Let_def)
  have merge2: "insert_record_add_on [(''merges'', 2)]
        \<lparr>time_col = [0, 1, 2], columns = [(''splits'', [None, Some 2])]\<rparr> =
     \<lparr>time_col = [0, 1, 2],
      columns = [(''splits'', [None, Some 2]), (''merges'', [None, None, Some 2])]\<rparr>"
    by (simp add: Let_def numeral_2_eq_2)
  have run1: "rec (fst (run_one_step reporting 1 one_species)) =
     \<lparr>time_col = [0, 1], columns = [(''splits'', [None, Some 2])]\<rparr>"
    by (simp add: run_one_step_def zone_step_def get_updated_zones_def Let_def reporting_def
          speciating_def one_species_def get_prior_time_def objects_at_time_def
          update_zone_data_structure_def object_set_difference_def get_surviving_species_def
          get_unused_species_id_def update_species_data_structure_def)
  have run2: "rec (fst (run_one_step reporting 1 (fst (run_one_step reporting 1 one_species)))) =
     \<lparr>time_col = [0, 1, 2],
      columns = [(''splits'', [None, Some 2]), (''merges'', [None, None, Some 2])]\<rparr>"
    by (simp add: run_one_step_def zone_step_def get_updated_zones_def Let_def reporting_def
          speciating_def one_species_def get_prior_time_def objects_at_time_def
          update_zone_data_structure_def object_set_difference_def get_surviving_species_def
          get_unused_species_id_def update_species_data_structure_def)
  have al: "aligned \<lparr>time_col = [0, 1], columns = [(''splits'', [None, Some 2])]\<rparr>"
    "\<not> aligned \<lparr>time_col = [0, 1, 2],
                 columns = [(''splits'', [None, Some 2]), (''merges'', [None, None, Some 2])]\<rparr>"
    by (simp_all add: aligned_def)
  from merge1 merge2 run1 run2 al show ?thesis by blast
qed

text \<open>A new component tracks its initial zones from the initial time on, and no species.\<close>

lemma init_ledgers:
  fixes c :: "('m, 'z, 's, 'x) collaborators"
  assumes so: "set_iteration (zone_set_order c)"
    and cr: "create_all_zones c zms w = (initial_zones, (h, x))"
  shows "snd (init c initial_time zms w) = None"
    and "zones (fst (init c initial_time zms w)) =
           \<lparr>time_appeared = replicate (length (zone_set_order c initial_zones)) initial_time,
            latest_time = replicate (length (zone_set_order c initial_zones)) initial_time,
            object = zone_set_order c initial_zones\<rparr>"
    and "object (species (fst (init c initial_time zms w))) = []"
    and "rec (fst (init c initial_time zms w)) = \<lparr>time_col = [initial_time], columns = []\<rparr>"
proof -
  let ?empty = "\<lparr>time_appeared = [], latest_time = [], object = []\<rparr> :: (real, 'z) ledger"
  have ok: "ledger_ok ?empty"
    by (simp add: ledger_ok_def)
  note res = update_zone_result [OF so ok, of initial_time initial_zones]
  show "snd (init c initial_time zms w) = None"
    and "zones (fst (init c initial_time zms w)) =
           \<lparr>time_appeared = replicate (length (zone_set_order c initial_zones)) initial_time,
            latest_time = replicate (length (zone_set_order c initial_zones)) initial_time,
            object = zone_set_order c initial_zones\<rparr>"
    and "object (species (fst (init c initial_time zms w))) = []"
    and "rec (fst (init c initial_time zms w)) = \<lparr>time_col = [initial_time], columns = []\<rparr>"
    using cr res by (simp_all add: init_def)
qed

end
